theory Spec2Isabelle
  imports Main "HOL-Library.Word"
begin

text \<open>
  The asset registry chaincode. The transaction handlers modelled are those of package
  \<^verbatim>\<open>main\<close>, which keys an asset by its cid and validates its type:
  \<^verbatim>\<open>AssetExists\<close>, \<^verbatim>\<open>CreateAsset\<close>, \<^verbatim>\<open>GetAsset\<close>, \<^verbatim>\<open>QueryAssets\<close> with
  \<^verbatim>\<open>getQueryResultForQueryStringWithPagination\<close> and
  \<^verbatim>\<open>constructQueryResponseFromIterator\<close>; and, of the older package
  \<^verbatim>\<open>chaincode\<close>, the point read \<^verbatim>\<open>ReadAsset\<close> and the range scan
  \<^verbatim>\<open>ReadAssets\<close>. The ledger's stub and Go's JSON encoding are outside the
  repository; they are modelled as far as these handlers use them.
\<close>

section \<open>Errors\<close>

text \<open>
  The Go code reports failures as \<^verbatim>\<open>error\<close> values: the two sentinels
  \<^verbatim>\<open>ErrAssetExists\<close> and \<^verbatim>\<open>ErrNotFound\<close>, the error of the
  generated enum parser, whatever the stub or an iterator returns, the two kinds of error
  of \<^verbatim>\<open>json.Unmarshal\<close>, and \<^verbatim>\<open>fmt.Errorf("<context>: %w", err)\<close>,
  which wraps an error under a context string.
\<close>

datatype error =
    ErrAssetExists
  | ErrNotFound
  | ErrInvalidAssetType string
  | StubError string
  | SyntaxError
  | UnmarshalTypeError
  | Wrap string error

section \<open>Data model\<close>

text \<open>
  A Go \<^verbatim>\<open>string\<close> is a sequence of bytes, here a \<^typ>\<open>string\<close> (a list of
  8-bit characters). \<^verbatim>\<open>type AssetType string\<close> is a string type of its own name.
\<close>

type_synonym AssetType = string

record Asset =
  CID :: string
  Features :: string
  ID :: string
  Type :: AssetType

text \<open>One result of a state query iterator; the code reads only \<^verbatim>\<open>GetValue()\<close>.\<close>

record KV =
  Key :: string
  Value :: string

text \<open>The response metadata of a paginated read, with its two getters.\<close>

record QueryResponseMetadata =
  GetFetchedRecordsCount :: "32 word"
  GetBookmark :: string

record PaginatedQueryResult =
  Records :: "Asset list"
  FetchedRecordsCount :: "32 word"
  Bookmark :: string

record AssetCursor =
  Assets :: "Asset list"
  CursorBookmark :: string

section \<open>The stub: world state and iterators\<close>

text \<open>
  A state query iterator holds the results still to come: each is what \<^verbatim>\<open>Next()\<close>
  will return, a key-value pair or an error. \<^verbatim>\<open>HasNext()\<close> is true while results
  remain. \<open>closed\<close> counts the calls of \<^verbatim>\<open>Close()\<close>.
\<close>

record StateQueryIterator =
  pending :: "(error + KV) list"
  closed :: nat

text \<open>
  The stub of one transaction context. \<open>state\<close> is the world state: \<open>None\<close> is the
  \<^verbatim>\<open>nil\<close> slice that \<^verbatim>\<open>GetState\<close> returns for a key without a value.
  \<open>writes\<close> logs the calls of \<^verbatim>\<open>PutState\<close> that succeeded. The store is
  outside the program: \<open>get_error\<close> and \<open>put_error\<close> say for which calls it fails
  and how, \<open>query_result\<close> and \<open>range_result\<close> what its two paginated reads return.
\<close>

record ChaincodeStub =
  state :: "string \<Rightarrow> string option"
  writes :: "(string \<times> string) list"
  get_error :: "string \<Rightarrow> error option"
  put_error :: "string \<Rightarrow> string \<Rightarrow> error option"
  query_result :: "string \<Rightarrow> 32 word \<Rightarrow> string
    \<Rightarrow> error + StateQueryIterator \<times> QueryResponseMetadata"
  range_result :: "string \<Rightarrow> string \<Rightarrow> 32 word \<Rightarrow> string
    \<Rightarrow> error + StateQueryIterator \<times> QueryResponseMetadata"

definition GetState :: "ChaincodeStub \<Rightarrow> string \<Rightarrow> error + string option" where
  "GetState ctx key =
     (case get_error ctx key of
        Some err \<Rightarrow> Inl err
      | None \<Rightarrow> Inr (state ctx key))"

definition PutState :: "ChaincodeStub \<Rightarrow> string \<Rightarrow> string \<Rightarrow> error + ChaincodeStub" where
  "PutState ctx key val =
     (case put_error ctx key val of
        Some err \<Rightarrow> Inl err
      | None \<Rightarrow> Inr (ctx\<lparr>state := (state ctx)(key \<mapsto> val),
                         writes := writes ctx @ [(key, val)]\<rparr>))"

text \<open>A store that holds nothing, never fails on a key, and answers no query.\<close>

definition empty_stub :: ChaincodeStub where
  "empty_stub =
     \<lparr>state = (\<lambda>_. None), writes = [],
      get_error = (\<lambda>_. None), put_error = (\<lambda>_ _. None),
      query_result = (\<lambda>_ _ _. Inl (StubError ''no query'')),
      range_result = (\<lambda>_ _ _ _. Inl (StubError ''no range''))\<rparr>"

section \<open>Strings as UTF-8 (Go's package unicode/utf8)\<close>

text \<open>
  \<^verbatim>\<open>json.Marshal\<close> and \<^verbatim>\<open>json.Unmarshal\<close> are Go's, not the repository's; what
  follows is the part of them that a struct of four string fields exercises. Both read a
  string rune by rune. \<^verbatim>\<open>utf8.DecodeRune\<close> returns the rune at the head of the bytes
  and its width, and \<^verbatim>\<open>(RuneError, 1)\<close> for a byte that starts no well-formed
  sequence; a rune is a natural number here. \<^verbatim>\<open>utf8.EncodeRune\<close> writes a rune back,
  the replacement rune for a surrogate or a value beyond U+10FFFF.
  \<^verbatim>\<open>utf8.ValidString\<close> holds of the strings that decode without \<^verbatim>\<open>(RuneError, 1)\<close>.
\<close>

definition RuneError :: nat where
  "RuneError = 0xFFFD"

fun DecodeRune :: "string \<Rightarrow> nat \<times> nat" where
  "DecodeRune [] = (RuneError, 0)"
| "DecodeRune (c0 # p) =
    (let p0 = of_char c0 :: nat in
     if p0 < 0x80 then (p0, 1)
     else if p0 < 0xC2 \<or> 0xF4 < p0 then (RuneError, 1)
     else
       let sz = (if p0 < 0xE0 then 2 else if p0 < 0xF0 then 3 else 4 :: nat);
           lo = (if p0 = 0xE0 then 0xA0 else if p0 = 0xF0 then 0x90 else 0x80 :: nat);
           hi = (if p0 = 0xED then 0x9F else if p0 = 0xF4 then 0x8F else 0xBF :: nat)
       in
         if length (c0 # p) < sz then (RuneError, 1)
         else
           let b1 = of_char (p ! 0) :: nat in
           if b1 < lo \<or> hi < b1 then (RuneError, 1)
           else if sz \<le> 2 then ((p0 mod 32) * 64 + b1 mod 64, 2)
           else
             let b2 = of_char (p ! 1) :: nat in
             if b2 < 0x80 \<or> 0xBF < b2 then (RuneError, 1)
             else if sz \<le> 3 then ((p0 mod 16) * 4096 + (b1 mod 64) * 64 + b2 mod 64, 3)
             else
               let b3 = of_char (p ! 2) :: nat in
               if b3 < 0x80 \<or> 0xBF < b3 then (RuneError, 1)
               else ((p0 mod 8) * 262144 + (b1 mod 64) * 4096 + (b2 mod 64) * 64
                       + b3 mod 64, 4))"

definition EncodeRune :: "nat \<Rightarrow> string" where
  "EncodeRune r =
    (if r \<le> 0x7F then [char_of r]
     else if r \<le> 0x7FF then [char_of (0xC0 + r div 64), char_of (0x80 + r mod 64)]
     else if 0x10FFFF < r \<or> (0xD800 \<le> r \<and> r \<le> 0xDFFF) then [CHR 0xEF, CHR 0xBF, CHR 0xBD]
     else if r \<le> 0xFFFF then
       [char_of (0xE0 + r div 4096), char_of (0x80 + (r div 64) mod 64),
        char_of (0x80 + r mod 64)]
     else
       [char_of (0xF0 + r div 262144), char_of (0x80 + (r div 4096) mod 64),
        char_of (0x80 + (r div 64) mod 64), char_of (0x80 + r mod 64)])"

fun ValidString :: "string \<Rightarrow> bool" where
  "ValidString [] = True"
| "ValidString (c # cs) =
    (case DecodeRune (c # cs) of
       (r, n) \<Rightarrow> \<not> (r = RuneError \<and> n = 1) \<and> ValidString (drop (n - 1) cs))"

section \<open>json.Marshal of an Asset\<close>

text \<open>
  \<^verbatim>\<open>appendString\<close> of encoding/json, as \<^verbatim>\<open>json.Marshal\<close> calls it (escaping for
  embedding in markup switched on): a byte below 0x80 is copied when the table
  \<^verbatim>\<open>htmlSafeSet\<close> allows it and escaped otherwise; a byte that starts no well-formed
  UTF-8 sequence is written as the escape of U+FFFD, the two line separators U+2028 and
  U+2029 as their escapes, every other rune as its own bytes. The struct is written as an
  object with its fields in the order of their declaration, under the names of their
  \<^verbatim>\<open>json\<close> tags. For a struct of strings \<^verbatim>\<open>json.Marshal\<close> returns no error.
\<close>

definition hex :: string where
  "hex = ''0123456789abcdef''"

definition htmlSafeSet :: "nat \<Rightarrow> bool" where
  "htmlSafeSet b \<longleftrightarrow>
     0x20 \<le> b \<and> b < 0x80 \<and> b \<noteq> 0x22 \<and> b \<noteq> 0x26 \<and> b \<noteq> 0x3C \<and> b \<noteq> 0x3E \<and> b \<noteq> 0x5C"

definition escapeByte :: "char \<Rightarrow> string" where
  "escapeByte c =
    (let b = of_char c :: nat in
     if b = 0x5C \<or> b = 0x22 then [CHR 0x5C, c]
     else if b = 0x08 then [CHR 0x5C, CHR ''b'']
     else if b = 0x0C then [CHR 0x5C, CHR ''f'']
     else if b = 0x0A then [CHR 0x5C, CHR ''n'']
     else if b = 0x0D then [CHR 0x5C, CHR ''r'']
     else if b = 0x09 then [CHR 0x5C, CHR ''t'']
     else [CHR 0x5C, CHR ''u'', CHR ''0'', CHR ''0'', hex ! (b div 16), hex ! (b mod 16)])"

fun appendString_loop :: "string \<Rightarrow> string" where
  "appendString_loop [] = []"
| "appendString_loop (c # cs) =
    (if (of_char c :: nat) < 0x80 then
       (if htmlSafeSet (of_char c) then [c] else escapeByte c) @ appendString_loop cs
     else
       (case DecodeRune (take 4 (c # cs)) of
          (r, n) \<Rightarrow>
            if r = RuneError \<and> n = 1 then
              [CHR 0x5C, CHR ''u'', CHR ''f'', CHR ''f'', CHR ''f'', CHR ''d'']
                @ appendString_loop cs
            else if r = 0x2028 \<or> r = 0x2029 then
              [CHR 0x5C, CHR ''u'', CHR ''2'', CHR ''0'', CHR ''2'', hex ! (r mod 16)]
                @ appendString_loop (drop (n - 1) cs)
            else take n (c # cs) @ appendString_loop (drop (n - 1) cs)))"

definition appendString :: "string \<Rightarrow> string" where
  "appendString src = CHR 0x22 # appendString_loop src @ [CHR 0x22]"

definition json_Marshal :: "Asset \<Rightarrow> error + string" where
  \<open>json_Marshal v =
     Inr (''{"cid":'' @ appendString (CID v)
          @ '',"features":'' @ appendString (Features v)
          @ '',"id":'' @ appendString (ID v)
          @ '',"type":'' @ appendString (Type v) @ ''}'')\<close>

section \<open>json.Unmarshal into an Asset: the tokens\<close>

text \<open>
  \<^verbatim>\<open>json.Unmarshal\<close> first checks that the bytes are one well-formed JSON value,
  then decodes it. The model splits the bytes into tokens, checks the grammar on the tokens
  and reads the top-level object from them. \<open>unquote\<close> reads a string literal after
  its opening quote: it stops at the closing quote, refuses a control character and an
  unknown escape as the scanner does, and converts as \<^verbatim>\<open>unquoteBytes\<close> does: an
  escape of a rune (a backslash, the letter u and four hexadecimal digits) becomes the
  UTF-8 of the rune (two escapes that form a surrogate pair become one rune, a lone
  surrogate becomes U+FFFD), and bytes that are no well-formed UTF-8 become U+FFFD. It
  returns the string and the input after the literal.
  A number is checked against the grammar of the scanner and its value dropped: no field of
  the struct takes a number.
\<close>

datatype token =
  TLBrace | TRBrace | TLBrack | TRBrack | TColon | TComma
  | TString string | TNumber | TTrue | TFalse | TNull

definition isSpace :: "char \<Rightarrow> bool" where
  "isSpace c \<longleftrightarrow> c = CHR '' '' \<or> c = CHR 0x09 \<or> c = CHR 0x0D \<or> c = CHR 0x0A"

definition isDigit :: "char \<Rightarrow> bool" where
  "isDigit c \<longleftrightarrow> 0x30 \<le> (of_char c :: nat) \<and> (of_char c :: nat) \<le> 0x39"

definition hexval :: "char \<Rightarrow> nat option" where
  "hexval c =
    (let b = of_char c :: nat in
     if 0x30 \<le> b \<and> b \<le> 0x39 then Some (b - 0x30)
     else if 0x61 \<le> b \<and> b \<le> 0x66 then Some (b - 0x61 + 10)
     else if 0x41 \<le> b \<and> b \<le> 0x46 then Some (b - 0x41 + 10)
     else None)"

definition getu4 :: "string \<Rightarrow> nat option" where
  "getu4 s =
    (case s of
       c0 # c1 # h1 # h2 # h3 # h4 # _ \<Rightarrow>
         if c0 = CHR 0x5C \<and> c1 = CHR ''u'' then
           (case (hexval h1, hexval h2, hexval h3, hexval h4) of
              (Some d1, Some d2, Some d3, Some d4) \<Rightarrow> Some (((d1 * 16 + d2) * 16 + d3) * 16 + d4)
            | _ \<Rightarrow> None)
         else None
     | _ \<Rightarrow> None)"

definition unescape :: "char \<Rightarrow> char option" where
  "unescape e =
    (if e = CHR 0x22 \<or> e = CHR 0x5C \<or> e = CHR ''/'' then Some e
     else if e = CHR ''b'' then Some (CHR 0x08)
     else if e = CHR ''f'' then Some (CHR 0x0C)
     else if e = CHR ''n'' then Some (CHR 0x0A)
     else if e = CHR ''r'' then Some (CHR 0x0D)
     else if e = CHR ''t'' then Some (CHR 0x09)
     else None)"

definition emit :: "string \<Rightarrow> (string \<times> string) option \<Rightarrow> (string \<times> string) option" where
  "emit b r = (case r of None \<Rightarrow> None | Some (s, rest) \<Rightarrow> Some (b @ s, rest))"

fun unquote :: "string \<Rightarrow> (string \<times> string) option" where
  "unquote [] = None"
| "unquote (c # cs) =
    (if c = CHR 0x22 then Some ([], cs)
     else if c = CHR 0x5C then
       (case cs of
          [] \<Rightarrow> None
        | e # es \<Rightarrow>
            if e = CHR ''u'' then
              (case getu4 (c # cs) of
                 None \<Rightarrow> None
               | Some rr \<Rightarrow>
                   if 0xD800 \<le> rr \<and> rr < 0xE000 then
                     (case getu4 (drop 4 es) of
                        None \<Rightarrow> emit (EncodeRune RuneError) (unquote (drop 4 es))
                      | Some rr1 \<Rightarrow>
                          if rr < 0xDC00 \<and> 0xDC00 \<le> rr1 \<and> rr1 < 0xE000 then
                            emit (EncodeRune ((rr - 0xD800) * 1024 + (rr1 - 0xDC00) + 0x10000))
                              (unquote (drop 10 es))
                          else emit (EncodeRune RuneError) (unquote (drop 4 es)))
                   else emit (EncodeRune rr) (unquote (drop 4 es)))
            else
              (case unescape e of
                 None \<Rightarrow> None
               | Some b \<Rightarrow> emit [b] (unquote es)))
     else if (of_char c :: nat) < 0x20 then None
     else if (of_char c :: nat) < 0x80 then emit [c] (unquote cs)
     else
       (case DecodeRune (c # cs) of
          (rr, n) \<Rightarrow> emit (EncodeRune rr) (unquote (drop (n - 1) cs))))"

text \<open>Numbers: the scanner's states after the sign, the integer part, the fraction.\<close>

definition digits1 :: "string \<Rightarrow> string option" where
  "digits1 s =
    (case s of
       [] \<Rightarrow> None
     | d # ds \<Rightarrow> if isDigit d then Some (dropWhile isDigit ds) else None)"

definition number_exponent :: "string \<Rightarrow> string option" where
  "number_exponent s =
    (case s of
       [] \<Rightarrow> Some []
     | c # cs \<Rightarrow>
         if c = CHR ''e'' \<or> c = CHR ''E'' then
           (case cs of
              [] \<Rightarrow> None
            | x # xs \<Rightarrow> if x = CHR ''+'' \<or> x = CHR ''-'' then digits1 xs else digits1 cs)
         else Some s)"

definition number_fraction :: "string \<Rightarrow> string option" where
  "number_fraction s =
    (case s of
       [] \<Rightarrow> Some []
     | c # cs \<Rightarrow>
         if c = CHR ''.'' then
           (case digits1 cs of None \<Rightarrow> None | Some r \<Rightarrow> number_exponent r)
         else number_exponent s)"

definition number_int :: "string \<Rightarrow> string option" where
  "number_int s =
    (case s of
       [] \<Rightarrow> None
     | d # ds \<Rightarrow>
         if d = CHR ''0'' then number_fraction ds
         else if isDigit d then number_fraction (dropWhile isDigit ds)
         else None)"

definition number_lit :: "string \<Rightarrow> string option" where
  "number_lit s =
    (case s of
       [] \<Rightarrow> None
     | c # cs \<Rightarrow> if c = CHR ''-'' then number_int cs else number_int s)"

definition tok :: "token \<Rightarrow> token list option \<Rightarrow> token list option" where
  "tok t r = (case r of None \<Rightarrow> None | Some ts \<Rightarrow> Some (t # ts))"

function tokenize :: "string \<Rightarrow> token list option" where
  "tokenize [] = Some []"
| "tokenize (c # cs) =
    (if isSpace c then tokenize cs
     else if c = CHR ''{'' then tok TLBrace (tokenize cs)
     else if c = CHR ''}'' then tok TRBrace (tokenize cs)
     else if c = CHR ''['' then tok TLBrack (tokenize cs)
     else if c = CHR '']'' then tok TRBrack (tokenize cs)
     else if c = CHR '':'' then tok TColon (tokenize cs)
     else if c = CHR '','' then tok TComma (tokenize cs)
     else if c = CHR 0x22 then
       (case unquote cs of
          None \<Rightarrow> None
        | Some (s, rest) \<Rightarrow> tok (TString s) (tokenize rest))
     else if c = CHR ''-'' \<or> isDigit c then
       (case number_lit (c # cs) of
          None \<Rightarrow> None
        | Some rest \<Rightarrow> tok TNumber (tokenize rest))
     else if take 4 (c # cs) = ''true'' then tok TTrue (tokenize (drop 3 cs))
     else if take 5 (c # cs) = ''false'' then tok TFalse (tokenize (drop 4 cs))
     else if take 4 (c # cs) = ''null'' then tok TNull (tokenize (drop 3 cs))
     else None)"
  by pat_completeness auto
termination
proof (relation "measure length")
  have unquote_length: "length rest \<le> length cs"
    if "unquote cs = Some (s, rest)" for cs s rest
    using that
  proof (induction cs arbitrary: s rest rule: length_induct)
    case (1 cs)
    have ih: "length rest' \<le> length t"
      if "length t < length cs" "emit b (unquote t) = Some (s', rest')" for t b s' rest'
    proof -
      from that(2) obtain s'' where "unquote t = Some (s'', rest')"
        by (auto simp: emit_def split: option.splits)
      with 1(1) that(1) show ?thesis by blast
    qed
    show ?case
    proof (cases cs)
      case Nil
      then show ?thesis using 1(2) by simp
    next
      case (Cons c t)
      note u = 1(2) [unfolded Cons unquote.simps]
      show ?thesis
      proof (cases "c = CHR 0x22")
        case True
        then show ?thesis using u by (simp add: Cons)
      next
        case nq: False
        show ?thesis
        proof (cases "c = CHR 0x5C")
          case True
          show ?thesis
          proof (cases t)
            case Nil
            then show ?thesis using u nq True by simp
          next
            case t: (Cons e es)
            show ?thesis
            proof (cases "e = CHR ''u''")
              case eu: True
              from u nq True t eu have
                "(\<exists>b. emit b (unquote (drop 4 es)) = Some (s, rest))
                 \<or> (\<exists>b. emit b (unquote (drop 10 es)) = Some (s, rest))"
                by (simp split: option.splits if_splits) blast+
              then show ?thesis
              proof (elim disjE exE)
                fix b assume e: "emit b (unquote (drop 4 es)) = Some (s, rest)"
                have "length rest \<le> length (drop 4 es)"
                  by (rule ih [OF _ e]) (simp add: Cons t)
                then show ?thesis by (simp add: Cons t)
              next
                fix b assume e: "emit b (unquote (drop 10 es)) = Some (s, rest)"
                have "length rest \<le> length (drop 10 es)"
                  by (rule ih [OF _ e]) (simp add: Cons t)
                then show ?thesis by (simp add: Cons t)
              qed
            next
              case False
              with u nq True t have "\<exists>b. emit b (unquote es) = Some (s, rest)"
                by (simp split: option.splits) blast
              then obtain b where e: "emit b (unquote es) = Some (s, rest)" ..
              have "length rest \<le> length es"
                by (rule ih [OF _ e]) (simp add: Cons t)
              then show ?thesis by (simp add: Cons t)
            qed
          qed
        next
          case nb: False
          show ?thesis
          proof (cases "(of_char c :: nat) < 0x80")
            case True
            with u nq nb have e: "emit [c] (unquote t) = Some (s, rest)"
              by (simp split: if_splits)
            have "length rest \<le> length t"
              by (rule ih [OF _ e]) (simp add: Cons)
            then show ?thesis by (simp add: Cons)
          next
            case False
            obtain rr n where d: "DecodeRune (c # t) = (rr, n)" by (cases "DecodeRune (c # t)")
            from u nq nb False have
              e: "emit (EncodeRune rr) (unquote (drop (n - 1) t)) = Some (s, rest)"
              unfolding d by (simp split: if_splits)
            have "length rest \<le> length (drop (n - 1) t)"
              by (rule ih [OF _ e]) (simp add: Cons)
            then show ?thesis by (simp add: Cons)
          qed
        qed
      qed
    qed
  qed
  have number_lit_length: "length r < length s"
    if a: "number_lit s = Some r" for s r
  proof -
    have dw: "length (dropWhile isDigit s) \<le> length s" for s
      by (simp add: length_dropWhile_le)
    have d1: "length r \<le> length s" if "digits1 s = Some r" for s r
      using that dw [of "tl s"] by (cases s) (auto simp: digits1_def split: if_splits)
    have ne: "length r \<le> length s" if "number_exponent s = Some r" for s r
    proof (cases s)
      case Nil
      then show ?thesis using that by (simp add: number_exponent_def)
    next
      case (Cons c cs)
      show ?thesis
      proof (cases cs)
        case Nil
        then show ?thesis using that Cons by (auto simp: number_exponent_def split: if_splits)
      next
        case cs: (Cons x xs)
        from that Cons cs have "r = s \<or> digits1 xs = Some r \<or> digits1 cs = Some r"
          by (auto simp: number_exponent_def split: if_splits)
        then show ?thesis using d1 [of xs r] d1 [of cs r] by (auto simp: Cons cs)
      qed
    qed
    have nf: "length r \<le> length s" if "number_fraction s = Some r" for s r
    proof (cases s)
      case Nil
      then show ?thesis using that by (simp add: number_fraction_def)
    next
      case (Cons c cs)
      from that Cons have "number_exponent s = Some r
          \<or> (\<exists>q. digits1 cs = Some q \<and> number_exponent q = Some r)"
        by (auto simp: number_fraction_def split: if_splits option.splits)
      then show ?thesis
      proof (elim disjE exE conjE)
        assume "number_exponent s = Some r"
        then show ?thesis by (rule ne)
      next
        fix q assume "digits1 cs = Some q" "number_exponent q = Some r"
        then have "length q \<le> length cs" "length r \<le> length q" using d1 ne by blast+
        then show ?thesis by (simp add: Cons)
      qed
    qed
    have ni: "length r < length s" if "number_int s = Some r" for s r
    proof -
      from that obtain d ds where s: "s = d # ds" by (cases s) (auto simp: number_int_def)
      from that s have
        "number_fraction ds = Some r \<or> number_fraction (dropWhile isDigit ds) = Some r"
        by (auto simp: number_int_def split: if_splits)
      then have "length r \<le> length ds"
        using nf [of ds r] nf [of "dropWhile isDigit ds" r] dw [of ds] by auto
      then show ?thesis by (simp add: s)
    qed
    from a obtain c cs where s: "s = c # cs" by (cases s) (auto simp: number_lit_def)
    from a s have "number_int cs = Some r \<or> number_int s = Some r"
      by (auto simp: number_lit_def split: if_splits)
    then show ?thesis using ni [of cs r] ni [of s r] by (auto simp: s)
  qed
  show "wf (measure length)" by simp
  show "(y, c # cs) \<in> measure length"
    if "unquote cs = Some x2" "(x, y) = x2" for c cs x2 x y
    using unquote_length [of cs x y] that by simp
  show "(x2, c # cs) \<in> measure length"
    if "number_lit (c # cs) = Some x2" for c cs x2
    using number_lit_length [OF that] by simp
qed simp_all

section \<open>json.Unmarshal into an Asset: the value\<close>

text \<open>
  The grammar, one token at a time, with the scanner's states and its stack of open
  objects and arrays (at most \<^verbatim>\<open>maxNestingDepth\<close> deep). A frame of the stack
  gathers the members or elements read so far; \<open>scan\<close> returns the value when the
  tokens are exactly one value.
\<close>

datatype json =
  JNull | JBool bool | JNumber | JString string
  | JArray "json list" | JObject "(string \<times> json) list"

datatype frame =
  InObject "(string \<times> json) list" "string option"
  | InArray "json list"

datatype mode =
  BeginValue | BeginValueOrEmpty | BeginStringOrEmpty | BeginString | EndValue
  | EndTop json

definition maxNestingDepth :: nat where
  "maxNestingDepth = 10000"

definition endValue :: "json \<Rightarrow> frame list \<Rightarrow> (mode \<times> frame list) option" where
  "endValue v st =
    (case st of
       [] \<Rightarrow> Some (EndTop v, [])
     | InObject ms None # st' \<Rightarrow> None
     | InObject ms (Some k) # st' \<Rightarrow> Some (EndValue, InObject (ms @ [(k, v)]) None # st')
     | InArray vs # st' \<Rightarrow> Some (EndValue, InArray (vs @ [v]) # st'))"

definition beginValue :: "token \<Rightarrow> frame list \<Rightarrow> (mode \<times> frame list) option" where
  "beginValue t st =
    (case t of
       TLBrace \<Rightarrow>
         if length st < maxNestingDepth then Some (BeginStringOrEmpty, InObject [] None # st)
         else None
     | TLBrack \<Rightarrow>
         if length st < maxNestingDepth then Some (BeginValueOrEmpty, InArray [] # st)
         else None
     | TString s \<Rightarrow> endValue (JString s) st
     | TNumber \<Rightarrow> endValue JNumber st
     | TTrue \<Rightarrow> endValue (JBool True) st
     | TFalse \<Rightarrow> endValue (JBool False) st
     | TNull \<Rightarrow> endValue JNull st
     | _ \<Rightarrow> None)"

definition beginString :: "token \<Rightarrow> frame list \<Rightarrow> (mode \<times> frame list) option" where
  "beginString t st =
    (case (t, st) of
       (TString k, InObject ms None # st') \<Rightarrow> Some (EndValue, InObject ms (Some k) # st')
     | _ \<Rightarrow> None)"

definition step :: "mode \<Rightarrow> frame list \<Rightarrow> token \<Rightarrow> (mode \<times> frame list) option" where
  "step m st t =
    (case m of
       BeginValue \<Rightarrow> beginValue t st
     | BeginValueOrEmpty \<Rightarrow>
         if t = TRBrack then
           (case st of InArray vs # st' \<Rightarrow> endValue (JArray vs) st' | _ \<Rightarrow> None)
         else beginValue t st
     | BeginStringOrEmpty \<Rightarrow>
         if t = TRBrace then
           (case st of InObject ms None # st' \<Rightarrow> endValue (JObject ms) st' | _ \<Rightarrow> None)
         else beginString t st
     | BeginString \<Rightarrow> beginString t st
     | EndValue \<Rightarrow>
         (case st of
            [] \<Rightarrow> None
          | InObject ms (Some k) # st' \<Rightarrow> if t = TColon then Some (BeginValue, st) else None
          | InObject ms None # st' \<Rightarrow>
              if t = TComma then Some (BeginString, st)
              else if t = TRBrace then endValue (JObject ms) st'
              else None
          | InArray vs # st' \<Rightarrow>
              if t = TComma then Some (BeginValue, st)
              else if t = TRBrack then endValue (JArray vs) st'
              else None)
     | EndTop v \<Rightarrow> None)"

fun scan :: "mode \<Rightarrow> frame list \<Rightarrow> token list \<Rightarrow> json option" where
  "scan m st [] = (case m of EndTop v \<Rightarrow> Some v | _ \<Rightarrow> None)"
| "scan m st (t # ts) =
    (case step m st t of
       None \<Rightarrow> None
     | Some (m', st') \<Rightarrow> scan m' st' ts)"

section \<open>json.Unmarshal into an Asset: the struct\<close>

text \<open>
  A member of the object is stored into the field whose name is the key, or else whose
  name equals the key under \<^verbatim>\<open>foldName\<close> (letters a to z in upper case, runes folded
  to the least rune of their case orbit); a member with another key is skipped. Among the
  runes outside ASCII only U+017F and U+212A fold to an ASCII letter (S and K); the others
  fold to runes outside ASCII and are left as they are here, which changes no comparison
  with the four field names. A string is stored, \<^verbatim>\<open>null\<close> leaves the field as it is,
  any other value for a field is an \<^verbatim>\<open>UnmarshalTypeError\<close>, kept until the object has
  been read to its end. The struct decoded into is a fresh one: all fields empty.
\<close>

definition foldRune :: "nat \<Rightarrow> nat" where
  "foldRune r = (if r = 0x17F then 0x53 else if r = 0x212A then 0x4B else r)"

fun foldName :: "string \<Rightarrow> string" where
  "foldName [] = []"
| "foldName (c # cs) =
    (if (of_char c :: nat) < 0x80 then
       (if 0x61 \<le> (of_char c :: nat) \<and> (of_char c :: nat) \<le> 0x7A
        then char_of ((of_char c :: nat) - 0x20) else c) # foldName cs
     else
       (case DecodeRune (c # cs) of
          (r, n) \<Rightarrow> EncodeRune (foldRune r) @ foldName (drop (n - 1) cs)))"

definition findField :: "string \<Rightarrow> (string \<Rightarrow> Asset \<Rightarrow> Asset) option" where
  "findField key =
    (if key = ''cid'' then Some (\<lambda>s v. v\<lparr>CID := s\<rparr>)
     else if key = ''features'' then Some (\<lambda>s v. v\<lparr>Features := s\<rparr>)
     else if key = ''id'' then Some (\<lambda>s v. v\<lparr>ID := s\<rparr>)
     else if key = ''type'' then Some (\<lambda>s v. v\<lparr>Type := s\<rparr>)
     else if foldName key = ''CID'' then Some (\<lambda>s v. v\<lparr>CID := s\<rparr>)
     else if foldName key = ''FEATURES'' then Some (\<lambda>s v. v\<lparr>Features := s\<rparr>)
     else if foldName key = ''ID'' then Some (\<lambda>s v. v\<lparr>ID := s\<rparr>)
     else if foldName key = ''TYPE'' then Some (\<lambda>s v. v\<lparr>Type := s\<rparr>)
     else None)"

fun object :: "(string \<times> json) list \<Rightarrow> Asset \<Rightarrow> bool \<Rightarrow> Asset \<times> bool" where
  "object [] v savedError = (v, savedError)"
| "object ((key, x) # ms) v savedError =
    (case findField key of
       None \<Rightarrow> object ms v savedError
     | Some set_field \<Rightarrow>
         (case x of
            JString s \<Rightarrow> object ms (set_field s v) savedError
          | JNull \<Rightarrow> object ms v savedError
          | _ \<Rightarrow> object ms v True))"

definition json_Unmarshal :: "string \<Rightarrow> error + Asset" where
  "json_Unmarshal data =
    (case tokenize data of
       None \<Rightarrow> Inl SyntaxError
     | Some ts \<Rightarrow>
         (case scan BeginValue [] ts of
            None \<Rightarrow> Inl SyntaxError
          | Some JNull \<Rightarrow> Inr \<lparr>CID = [], Features = [], ID = [], Type = []\<rparr>
          | Some (JObject ms) \<Rightarrow>
              (case object ms \<lparr>CID = [], Features = [], ID = [], Type = []\<rparr> False of
                 (v, savedError) \<Rightarrow> if savedError then Inl UnmarshalTypeError else Inr v)
          | Some _ \<Rightarrow> Inl UnmarshalTypeError))"

section \<open>The asset type\<close>

text \<open>
  Modelled from the spec: \<^verbatim>\<open>ParseAssetType\<close> and the two constants of the enum.
  They are generated from the comment \<^verbatim>\<open>ENUM(PDF, PE)\<close> on \<^verbatim>\<open>AssetType\<close> into a
  file that is not among the sources. By the spec the parser maps a string to the tag it
  matches case-sensitively and answers any other string with an error that carries the
  string.
\<close>

definition AssetTypePDF :: AssetType where
  "AssetTypePDF = ''PDF''"

definition AssetTypePE :: AssetType where
  "AssetTypePE = ''PE''"

definition ParseAssetType :: "string \<Rightarrow> error + AssetType" where
  "ParseAssetType name =
     (if name = ''PDF'' then Inr AssetTypePDF
      else if name = ''PE'' then Inr AssetTypePE
      else Inl (ErrInvalidAssetType name))"

section \<open>Ledger access\<close>

text \<open>
  \<^verbatim>\<open>AssetExists\<close>: the value read is compared with \<^verbatim>\<open>nil\<close>, nothing else.
\<close>

definition AssetExists :: "ChaincodeStub \<Rightarrow> string \<Rightarrow> error + bool" where
  "AssetExists ctx cid =
     (case GetState ctx cid of
        Inl err \<Rightarrow> Inl (Wrap ''read from ledger state'' err)
      | Inr assetJSON \<Rightarrow> Inr (assetJSON \<noteq> None))"

text \<open>
  \<^verbatim>\<open>CreateAsset\<close> returns its error, if any, and the stub as the call leaves it.
\<close>

definition CreateAsset ::
  "ChaincodeStub \<Rightarrow> string \<Rightarrow> string \<Rightarrow> string \<Rightarrow> string \<Rightarrow> error option \<times> ChaincodeStub" where
  "CreateAsset ctx assetCID assetID assetType features =
     (case AssetExists ctx assetCID of
        Inl err \<Rightarrow> (Some err, ctx)
      | Inr found \<Rightarrow>
          if found then (Some ErrAssetExists, ctx)
          else
            (case ParseAssetType assetType of
               Inl err \<Rightarrow> (Some (Wrap ''parse asset type'' err), ctx)
             | Inr assetTypeEnum \<Rightarrow>
                 (case json_Marshal \<lparr>CID = assetCID, Features = features, ID = assetID,
                                      Type = assetTypeEnum\<rparr> of
                    Inl err \<Rightarrow> (Some (Wrap ''marshal asset'' err), ctx)
                  | Inr assetJSON \<Rightarrow>
                      (case PutState ctx assetCID assetJSON of
                         Inl err \<Rightarrow> (Some (Wrap ''put asset in ledger state'' err), ctx)
                       | Inr ctx' \<Rightarrow> (None, ctx')))))"

definition GetAsset :: "ChaincodeStub \<Rightarrow> string \<Rightarrow> error + Asset" where
  "GetAsset ctx cid =
     (case GetState ctx cid of
        Inl err \<Rightarrow> Inl (Wrap ''read from ledger state'' err)
      | Inr None \<Rightarrow> Inl ErrNotFound
      | Inr (Some assetJSON) \<Rightarrow>
          (case json_Unmarshal assetJSON of
             Inl err \<Rightarrow> Inl (Wrap ''unmarshal asset'' err)
           | Inr asset \<Rightarrow> Inr asset))"

text \<open>
  \<^verbatim>\<open>ReadAsset\<close> of package \<^verbatim>\<open>chaincode\<close>: the same read, under other context
  strings.
\<close>

definition ReadAsset :: "ChaincodeStub \<Rightarrow> string \<Rightarrow> error + Asset" where
  "ReadAsset ctx ident =
     (case GetState ctx ident of
        Inl err \<Rightarrow> Inl (Wrap ''failed to read from world state'' err)
      | Inr None \<Rightarrow> Inl ErrNotFound
      | Inr (Some assetJSON) \<Rightarrow>
          (case json_Unmarshal assetJSON of
             Inl err \<Rightarrow> Inl (Wrap ''failed to unmarshal asset'' err)
           | Inr asset \<Rightarrow> Inr asset))"

section \<open>Pagination\<close>

definition HasNext :: "StateQueryIterator \<Rightarrow> bool" where
  "HasNext it \<longleftrightarrow> pending it \<noteq> []"

definition Next :: "StateQueryIterator \<Rightarrow> (error + KV) \<times> StateQueryIterator" where
  "Next it =
     (case pending it of
        [] \<Rightarrow> (Inl (StubError ''no more results''), it)
      | r # rs \<Rightarrow> (r, it\<lparr>pending := rs\<rparr>))"

definition Close :: "StateQueryIterator \<Rightarrow> StateQueryIterator" where
  "Close it = it\<lparr>closed := closed it + 1\<rparr>"

definition GetQueryResultWithPagination ::
  "ChaincodeStub \<Rightarrow> string \<Rightarrow> 32 word \<Rightarrow> string
    \<Rightarrow> error + StateQueryIterator \<times> QueryResponseMetadata" where
  "GetQueryResultWithPagination ctx query pageSize bookmark =
     query_result ctx query pageSize bookmark"

definition GetStateByRangeWithPagination ::
  "ChaincodeStub \<Rightarrow> string \<Rightarrow> string \<Rightarrow> 32 word \<Rightarrow> string
    \<Rightarrow> error + StateQueryIterator \<times> QueryResponseMetadata" where
  "GetStateByRangeWithPagination ctx startKey endKey pageSize bookmark =
     range_result ctx startKey endKey pageSize bookmark"

text \<open>
  The loop of \<^verbatim>\<open>constructQueryResponseFromIterator\<close>, which is also the loop in the
  body of \<^verbatim>\<open>ReadAssets\<close>: the two differ in the context strings of their errors,
  the parameters \<open>readContext\<close> and \<open>unmarshalContext\<close>. It returns the assets or the
  error, and the iterator as the loop leaves it.
\<close>

function iterate ::
  "string \<Rightarrow> string \<Rightarrow> StateQueryIterator \<Rightarrow> Asset list
    \<Rightarrow> (error + Asset list) \<times> StateQueryIterator" where
  "iterate readContext unmarshalContext resultsIterator assets =
     (if HasNext resultsIterator then
        (case Next resultsIterator of
           (Inl err, it') \<Rightarrow> (Inl (Wrap readContext err), it')
         | (Inr queryResult, it') \<Rightarrow>
             (case json_Unmarshal (Value queryResult) of
                Inl err \<Rightarrow> (Inl (Wrap unmarshalContext err), it')
              | Inr asset \<Rightarrow> iterate readContext unmarshalContext it' (assets @ [asset])))
      else (Inr assets, resultsIterator))"
  by pat_completeness auto
termination
  by (relation "measure (\<lambda>(readContext, unmarshalContext, it, assets). length (pending it))")
    (auto simp: HasNext_def Next_def split: list.splits)

definition constructQueryResponseFromIterator ::
  "StateQueryIterator \<Rightarrow> (error + Asset list) \<times> StateQueryIterator" where
  "constructQueryResponseFromIterator resultsIterator =
     iterate ''read asset from iterator'' ''unmarshal asset'' resultsIterator []"

text \<open>
  The paginated reads return their result and the iterator as they leave it, after the
  deferred \<^verbatim>\<open>Close()\<close>; there is no iterator when the store refuses the read.
\<close>

definition getQueryResultForQueryStringWithPagination ::
  "ChaincodeStub \<Rightarrow> string \<Rightarrow> 32 word \<Rightarrow> string
    \<Rightarrow> (error + PaginatedQueryResult) \<times> StateQueryIterator option" where
  "getQueryResultForQueryStringWithPagination ctx queryString pageSize bookmark =
     (case GetQueryResultWithPagination ctx queryString pageSize bookmark of
        Inl err \<Rightarrow> (Inl (Wrap ''get query result'' err), None)
      | Inr (resultsIterator, responseMetadata) \<Rightarrow>
          (case constructQueryResponseFromIterator resultsIterator of
             (Inl err, it') \<Rightarrow> (Inl err, Some (Close it'))
           | (Inr assets, it') \<Rightarrow>
               (Inr \<lparr>Records = assets,
                     FetchedRecordsCount = GetFetchedRecordsCount responseMetadata,
                     Bookmark = GetBookmark responseMetadata\<rparr>,
                Some (Close it'))))"

text \<open>
  \<^verbatim>\<open>int32(pageSize)\<close>: Go's \<^verbatim>\<open>int\<close> is 64 bits wide on the platforms that run
  chaincode, and the conversion keeps the low 32 bits.
\<close>

definition int32 :: "64 word \<Rightarrow> 32 word" where
  "int32 x = ucast x"

definition QueryAssets ::
  "ChaincodeStub \<Rightarrow> string \<Rightarrow> 64 word \<Rightarrow> string
    \<Rightarrow> (error + PaginatedQueryResult) \<times> StateQueryIterator option" where
  "QueryAssets ctx queryString pageSize bookmark =
     getQueryResultForQueryStringWithPagination ctx queryString (int32 pageSize) bookmark"

definition ReadAssets ::
  "ChaincodeStub \<Rightarrow> 32 word \<Rightarrow> string
    \<Rightarrow> (error + AssetCursor) \<times> StateQueryIterator option" where
  "ReadAssets ctx pageSize bookmark =
     (case GetStateByRangeWithPagination ctx [] [] pageSize bookmark of
        Inl err \<Rightarrow> (Inl (Wrap ''failed to read assets from world state'' err), None)
      | Inr (resultsIterator, metadata) \<Rightarrow>
          (case iterate ''failed to read asset from iterator'' ''failed to unmarshal asset''
                  resultsIterator [] of
             (Inl err, it') \<Rightarrow> (Inl err, Some (Close it'))
           | (Inr assets, it') \<Rightarrow>
               (Inr \<lparr>Assets = assets, CursorBookmark = GetBookmark metadata\<rparr>,
                Some (Close it'))))"

section \<open>Example values\<close>

text \<open>
  The stored form of the asset of the spec's first scenario, a result that holds it, a
  result whose value is no JSON, and a store whose two paginated reads hand out an
  iterator over given results, with the count of the results and a bookmark.
\<close>

definition asset0 :: Asset where
  "asset0 = \<lparr>CID = ''CID_0'', Features = ''[]'', ID = ''ASSET_0'', Type = ''PDF''\<rparr>"

definition asset0_json :: string where
  \<open>asset0_json = ''{"cid":"CID_0","features":"[]","id":"ASSET_0","type":"PDF"}''\<close>

definition kv_good :: KV where
  "kv_good = \<lparr>Key = ''CID_0'', Value = asset0_json\<rparr>"

definition kv_bad :: KV where
  "kv_bad = \<lparr>Key = ''CID_1'', Value = ''{''\<rparr>"

definition page_stub :: "(error + KV) list \<Rightarrow> ChaincodeStub" where
  "page_stub results =
     empty_stub
       \<lparr>query_result := (\<lambda>_ _ _.
          Inr (\<lparr>pending = results, closed = 0\<rparr>,
               \<lparr>GetFetchedRecordsCount = of_nat (length results), GetBookmark = ''g1AAAA''\<rparr>)),
        range_result := (\<lambda>_ _ _ _.
          Inr (\<lparr>pending = results, closed = 0\<rparr>,
               \<lparr>GetFetchedRecordsCount = of_nat (length results), GetBookmark = ''g1AAAA''\<rparr>))\<rparr>"

text \<open>
  A store that refuses rich queries and serves the range scan, and a store that answers a
  rich query with no results and reports the page size and the bookmark it was asked
  with, the page size as the fetched count.
\<close>

definition range_stub :: "(error + KV) list \<Rightarrow> ChaincodeStub" where
  "range_stub results =
     empty_stub
       \<lparr>range_result := (\<lambda>_ _ _ _.
          Inr (\<lparr>pending = results, closed = 0\<rparr>,
               \<lparr>GetFetchedRecordsCount = of_nat (length results), GetBookmark = ''CID_2''\<rparr>))\<rparr>"

definition echo_stub :: ChaincodeStub where
  "echo_stub =
     empty_stub
       \<lparr>query_result := (\<lambda>query pageSize bookmark.
          Inr (\<lparr>pending = [], closed = 0\<rparr>,
               \<lparr>GetFetchedRecordsCount = pageSize, GetBookmark = bookmark\<rparr>))\<rparr>"

section \<open>Runes and their bytes\<close>

text \<open>
  A well-formed sequence of two, three or four bytes decodes to a rune that encodes back
  to the same bytes: the bits of the rune are the low bits of the bytes, digit by digit in
  base 64.
\<close>

lemma div_mod_digit:
  fixes q k y :: nat
  assumes "y < k"
  shows "(q * k + y) div k = q" "(q * k + y) mod k = y"
  using assms by simp_all

lemma lead2_bits: "a < 32 \<Longrightarrow> (192 + a) mod 32 = (a::nat)"
  using div_mod_digit(2) [of a 32 6] by simp
lemma lead3_bits: "a < 16 \<Longrightarrow> (224 + a) mod 16 = (a::nat)"
  using div_mod_digit(2) [of a 16 14] by simp
lemma lead4_bits: "a < 8 \<Longrightarrow> (240 + a) mod 8 = (a::nat)"
  using div_mod_digit(2) [of a 8 30] by simp
lemma cont_bits: "x < 64 \<Longrightarrow> (128 + x) mod 64 = (x::nat)"
  using div_mod_digit(2) [of x 64 2] by simp

lemma digits3:
  fixes a x y :: nat
  assumes "x < 64" "y < 64"
  shows "(a * 4096 + x * 64 + y) div 4096 = a"
    "((a * 4096 + x * 64 + y) div 64) mod 64 = x"
    "(a * 4096 + x * 64 + y) mod 64 = y"
proof -
  have e: "a * 4096 + x * 64 + y = (a * 64 + x) * 64 + y" by simp
  have g: "a * 4096 + x * 64 + y = a * 4096 + (x * 64 + y)" by simp
  have xy: "x * 64 + y < 4096" using assms by simp
  show "(a * 4096 + x * 64 + y) mod 64 = y"
    using div_mod_digit(2) [OF assms(2), of "a * 64 + x"] by (simp only: e)
  show "((a * 4096 + x * 64 + y) div 64) mod 64 = x"
    using div_mod_digit(1) [OF assms(2), of "a * 64 + x"] div_mod_digit(2) [OF assms(1), of a]
    by (simp only: e)
  show "(a * 4096 + x * 64 + y) div 4096 = a"
    using div_mod_digit(1) [OF xy, of a] by (simp only: g)
qed

lemma digits4:
  fixes a x y z :: nat
  assumes "x < 64" "y < 64" "z < 64"
  shows "(a * 262144 + x * 4096 + y * 64 + z) div 262144 = a"
    "((a * 262144 + x * 4096 + y * 64 + z) div 4096) mod 64 = x"
    "((a * 262144 + x * 4096 + y * 64 + z) div 64) mod 64 = y"
    "(a * 262144 + x * 4096 + y * 64 + z) mod 64 = z"
proof -
  have e: "a * 262144 + x * 4096 + y * 64 + z = ((a * 64 + x) * 64 + y) * 64 + z" by simp
  have f: "a * 262144 + x * 4096 + y * 64 + z = (a * 64 + x) * 4096 + (y * 64 + z)" by simp
  have g: "a * 262144 + x * 4096 + y * 64 + z = a * 262144 + (x * 4096 + y * 64 + z)" by simp
  have yz: "y * 64 + z < 4096" using assms by simp
  have xyz: "x * 4096 + y * 64 + z < 262144" using assms by simp
  show "(a * 262144 + x * 4096 + y * 64 + z) mod 64 = z"
    using div_mod_digit(2) [OF assms(3), of "(a * 64 + x) * 64 + y"] by (simp only: e)
  show "((a * 262144 + x * 4096 + y * 64 + z) div 64) mod 64 = y"
    using div_mod_digit(1) [OF assms(3), of "(a * 64 + x) * 64 + y"]
      div_mod_digit(2) [OF assms(2), of "a * 64 + x"]
    by (simp only: e)
  show "((a * 262144 + x * 4096 + y * 64 + z) div 4096) mod 64 = x"
    using div_mod_digit(1) [OF yz, of "a * 64 + x"] div_mod_digit(2) [OF assms(1), of a]
    by (simp only: f)
  show "(a * 262144 + x * 4096 + y * 64 + z) div 262144 = a"
    using div_mod_digit(1) [OF xyz, of a] by (simp only: g)
qed

lemma rune2_bytes:
  fixes p0 b1 :: nat
  assumes "0xC2 \<le> p0" "p0 \<le> 0xDF" "0x80 \<le> b1" "b1 \<le> 0xBF"
  defines "r \<equiv> (p0 mod 32) * 64 + b1 mod 64"
  shows "0x80 \<le> r" "r \<le> 0x7FF" "0xC0 + r div 64 = p0" "0x80 + r mod 64 = b1"
proof -
  define a where "a = p0 - 192"
  define x where "x = b1 - 128"
  have p0: "p0 = 192 + a" and a: "a < 32" "2 \<le> a" using assms by (simp_all add: a_def)
  have b1: "b1 = 128 + x" and x: "x < 64" using assms by (simp_all add: x_def)
  have r: "r = a * 64 + x" unfolding r_def p0 b1 lead2_bits [OF a(1)] cont_bits [OF x] ..
  show "0x80 \<le> r" "r \<le> 0x7FF" using a x by (simp_all add: r)
  show "0xC0 + r div 64 = p0" unfolding r div_mod_digit(1) [OF x] p0 by simp
  show "0x80 + r mod 64 = b1" unfolding r div_mod_digit(2) [OF x] b1 by simp
qed

lemma rune3_bytes:
  fixes p0 b1 b2 :: nat
  assumes "0xE0 \<le> p0" "p0 \<le> 0xEF" "0x80 \<le> b1" "b1 \<le> 0xBF" "0x80 \<le> b2" "b2 \<le> 0xBF"
    "p0 = 0xE0 \<longrightarrow> 0xA0 \<le> b1" "p0 = 0xED \<longrightarrow> b1 \<le> 0x9F"
  defines "r \<equiv> (p0 mod 16) * 4096 + (b1 mod 64) * 64 + b2 mod 64"
  shows "0x800 \<le> r" "r \<le> 0xFFFF" "\<not> (0xD800 \<le> r \<and> r \<le> 0xDFFF)"
    "0xE0 + r div 4096 = p0" "0x80 + (r div 64) mod 64 = b1" "0x80 + r mod 64 = b2"
proof -
  define a where "a = p0 - 224"
  define x where "x = b1 - 128"
  define y where "y = b2 - 128"
  have p0: "p0 = 224 + a" and a: "a < 16" using assms by (simp_all add: a_def)
  have b1: "b1 = 128 + x" and x: "x < 64" using assms by (simp_all add: x_def)
  have b2: "b2 = 128 + y" and y: "y < 64" using assms by (simp_all add: y_def)
  have lo: "a = 0 \<longrightarrow> 32 \<le> x" and hi: "a = 13 \<longrightarrow> x < 32"
    using assms(7,8) by (auto simp: p0 b1)
  have r: "r = a * 4096 + x * 64 + y"
    unfolding r_def p0 b1 b2 lead3_bits [OF a] cont_bits [OF x] cont_bits [OF y] ..
  show "0x800 \<le> r" using lo a x y unfolding r by (cases "a = 0") simp_all
  show "r \<le> 0xFFFF" using a x y unfolding r by simp
  show "\<not> (0xD800 \<le> r \<and> r \<le> 0xDFFF)"
  proof (cases "a = 13")
    case True
    then show ?thesis using hi x y unfolding r by simp
  next
    case False
    then have "a \<le> 12 \<or> 14 \<le> a" by arith
    then show ?thesis using x y unfolding r by auto
  qed
  show "0xE0 + r div 4096 = p0" unfolding r digits3(1) [OF x y] p0 by simp
  show "0x80 + (r div 64) mod 64 = b1" unfolding r digits3(2) [OF x y] b1 by simp
  show "0x80 + r mod 64 = b2" unfolding r digits3(3) [OF x y] b2 by simp
qed

lemma rune4_bytes:
  fixes p0 b1 b2 b3 :: nat
  assumes "0xF0 \<le> p0" "p0 \<le> 0xF4" "0x80 \<le> b1" "b1 \<le> 0xBF" "0x80 \<le> b2" "b2 \<le> 0xBF"
    "0x80 \<le> b3" "b3 \<le> 0xBF"
    "p0 = 0xF0 \<longrightarrow> 0x90 \<le> b1" "p0 = 0xF4 \<longrightarrow> b1 \<le> 0x8F"
  defines "r \<equiv> (p0 mod 8) * 262144 + (b1 mod 64) * 4096 + (b2 mod 64) * 64 + b3 mod 64"
  shows "0x10000 \<le> r" "r \<le> 0x10FFFF"
    "0xF0 + r div 262144 = p0" "0x80 + (r div 4096) mod 64 = b1"
    "0x80 + (r div 64) mod 64 = b2" "0x80 + r mod 64 = b3"
proof -
  define a where "a = p0 - 240"
  define x where "x = b1 - 128"
  define y where "y = b2 - 128"
  define z where "z = b3 - 128"
  have p0: "p0 = 240 + a" and a: "a < 8" "a \<le> 4" using assms by (simp_all add: a_def)
  have b1: "b1 = 128 + x" and x: "x < 64" using assms by (simp_all add: x_def)
  have b2: "b2 = 128 + y" and y: "y < 64" using assms by (simp_all add: y_def)
  have b3: "b3 = 128 + z" and z: "z < 64" using assms by (simp_all add: z_def)
  have lo: "a = 0 \<longrightarrow> 16 \<le> x" and hi: "a = 4 \<longrightarrow> x < 16"
    using assms(9,10) by (auto simp: p0 b1)
  have r: "r = a * 262144 + x * 4096 + y * 64 + z"
    unfolding r_def p0 b1 b2 b3 lead4_bits [OF a(1)] cont_bits [OF x] cont_bits [OF y] cont_bits [OF z] ..
  show "0x10000 \<le> r" using lo a x y z unfolding r by (cases "a = 0") simp_all
  show "r \<le> 0x10FFFF"
  proof (cases "a = 4")
    case True
    then show ?thesis using hi y z unfolding r by simp
  next
    case False
    then have "a \<le> 3" using a by simp
    then show ?thesis using x y z unfolding r by simp
  qed
  show "0xF0 + r div 262144 = p0" unfolding r digits4(1) [OF x y z] p0 by simp
  show "0x80 + (r div 4096) mod 64 = b1" unfolding r digits4(2) [OF x y z] b1 by simp
  show "0x80 + (r div 64) mod 64 = b2" unfolding r digits4(3) [OF x y z] b2 by simp
  show "0x80 + r mod 64 = b3" unfolding r digits4(4) [OF x y z] b3 by simp
qed

lemma DecodeRune_inv:
  assumes "DecodeRune s = (r, n)" "(of_char (hd s) :: nat) \<ge> 0x80" "s \<noteq> []"
  shows "(r = RuneError \<and> n = 1)
    \<or> (\<exists>c0 c1 t. s = c0 # c1 # t \<and> n = 2
          \<and> 0xC2 \<le> (of_char c0 :: nat) \<and> (of_char c0 :: nat) \<le> 0xDF
          \<and> 0x80 \<le> (of_char c1 :: nat) \<and> (of_char c1 :: nat) \<le> 0xBF
          \<and> r = (of_char c0 mod 32) * 64 + of_char c1 mod 64)
    \<or> (\<exists>c0 c1 c2 t. s = c0 # c1 # c2 # t \<and> n = 3
          \<and> 0xE0 \<le> (of_char c0 :: nat) \<and> (of_char c0 :: nat) \<le> 0xEF
          \<and> 0x80 \<le> (of_char c1 :: nat) \<and> (of_char c1 :: nat) \<le> 0xBF
          \<and> 0x80 \<le> (of_char c2 :: nat) \<and> (of_char c2 :: nat) \<le> 0xBF
          \<and> ((of_char c0 :: nat) = 0xE0 \<longrightarrow> 0xA0 \<le> (of_char c1 :: nat))
          \<and> ((of_char c0 :: nat) = 0xED \<longrightarrow> (of_char c1 :: nat) \<le> 0x9F)
          \<and> r = (of_char c0 mod 16) * 4096 + (of_char c1 mod 64) * 64 + of_char c2 mod 64)
    \<or> (\<exists>c0 c1 c2 c3 t. s = c0 # c1 # c2 # c3 # t \<and> n = 4
          \<and> 0xF0 \<le> (of_char c0 :: nat) \<and> (of_char c0 :: nat) \<le> 0xF4
          \<and> 0x80 \<le> (of_char c1 :: nat) \<and> (of_char c1 :: nat) \<le> 0xBF
          \<and> 0x80 \<le> (of_char c2 :: nat) \<and> (of_char c2 :: nat) \<le> 0xBF
          \<and> 0x80 \<le> (of_char c3 :: nat) \<and> (of_char c3 :: nat) \<le> 0xBF
          \<and> ((of_char c0 :: nat) = 0xF0 \<longrightarrow> 0x90 \<le> (of_char c1 :: nat))
          \<and> ((of_char c0 :: nat) = 0xF4 \<longrightarrow> (of_char c1 :: nat) \<le> 0x8F)
          \<and> r = (of_char c0 mod 8) * 262144 + (of_char c1 mod 64) * 4096
                  + (of_char c2 mod 64) * 64 + of_char c3 mod 64)"
proof -
  obtain c0 p where s: "s = c0 # p" using assms(3) by (cases s) auto
  show ?thesis
  proof (cases p)
    case Nil
    then show ?thesis using assms(1,2) by (auto simp: s Let_def split: if_splits)
  next
    case p: (Cons c1 p1)
    show ?thesis
    proof (cases p1)
      case Nil
      then show ?thesis using assms(1,2) by (auto simp: s p Let_def split: if_splits)
    next
      case p1: (Cons c2 p2)
      show ?thesis
      proof (cases p2)
        case Nil
        then show ?thesis using assms(1,2) by (auto simp: s p p1 Let_def split: if_splits)
      next
        case p2: (Cons c3 p3)
        then show ?thesis using assms(1,2) by (auto simp: s p p1 Let_def split: if_splits)
      qed
    qed
  qed
qed

lemma EncodeRune2:
  "0x80 \<le> r \<Longrightarrow> r \<le> 0x7FF \<Longrightarrow>
   EncodeRune r = [char_of (0xC0 + r div 64), char_of (0x80 + r mod 64)]"
  by (simp add: EncodeRune_def)

lemma EncodeRune3:
  "0x800 \<le> r \<Longrightarrow> r \<le> 0xFFFF \<Longrightarrow> \<not> (0xD800 \<le> r \<and> r \<le> 0xDFFF) \<Longrightarrow>
   EncodeRune r = [char_of (0xE0 + r div 4096), char_of (0x80 + (r div 64) mod 64),
        char_of (0x80 + r mod 64)]"
  by (auto simp: EncodeRune_def)

lemma EncodeRune4:
  "0x10000 \<le> r \<Longrightarrow> r \<le> 0x10FFFF \<Longrightarrow>
   EncodeRune r = [char_of (0xF0 + r div 262144), char_of (0x80 + (r div 4096) mod 64),
        char_of (0x80 + (r div 64) mod 64), char_of (0x80 + r mod 64)]"
  by (simp add: EncodeRune_def)

lemma DecodeRune2:
  assumes "0xC2 \<le> (of_char c0 :: nat)" "(of_char c0 :: nat) \<le> 0xDF"
      "0x80 \<le> (of_char c1 :: nat)" "(of_char c1 :: nat) \<le> 0xBF"
  shows "DecodeRune (c0 # c1 # t) = ((of_char c0 mod 32) * 64 + of_char c1 mod 64, 2)"
  using assms by simp

lemma DecodeRune3:
  assumes "0xE0 \<le> (of_char c0 :: nat)" "(of_char c0 :: nat) \<le> 0xEF"
      "0x80 \<le> (of_char c1 :: nat)" "(of_char c1 :: nat) \<le> 0xBF"
      "0x80 \<le> (of_char c2 :: nat)" "(of_char c2 :: nat) \<le> 0xBF"
      "(of_char c0 :: nat) = 0xE0 \<longrightarrow> 0xA0 \<le> (of_char c1 :: nat)"
      "(of_char c0 :: nat) = 0xED \<longrightarrow> (of_char c1 :: nat) \<le> 0x9F"
  shows "DecodeRune (c0 # c1 # c2 # t)
    = ((of_char c0 mod 16) * 4096 + (of_char c1 mod 64) * 64 + of_char c2 mod 64, 3)"
  using assms by (auto simp: Let_def)

lemma DecodeRune4:
  assumes "0xF0 \<le> (of_char c0 :: nat)" "(of_char c0 :: nat) \<le> 0xF4"
      "0x80 \<le> (of_char c1 :: nat)" "(of_char c1 :: nat) \<le> 0xBF"
      "0x80 \<le> (of_char c2 :: nat)" "(of_char c2 :: nat) \<le> 0xBF"
      "0x80 \<le> (of_char c3 :: nat)" "(of_char c3 :: nat) \<le> 0xBF"
      "(of_char c0 :: nat) = 0xF0 \<longrightarrow> 0x90 \<le> (of_char c1 :: nat)"
      "(of_char c0 :: nat) = 0xF4 \<longrightarrow> (of_char c1 :: nat) \<le> 0x8F"
  shows "DecodeRune (c0 # c1 # c2 # c3 # t)
    = ((of_char c0 mod 8) * 262144 + (of_char c1 mod 64) * 4096
            + (of_char c2 mod 64) * 64 + of_char c3 mod 64, 4)"
  using assms by (auto simp: Let_def)

lemma DecodeRune_valid:
  assumes "DecodeRune s = (r, n)" "(of_char (hd s) :: nat) \<ge> 0x80" "s \<noteq> []"
    "\<not> (r = RuneError \<and> n = 1)"
  shows "2 \<le> n \<and> n \<le> length s \<and> EncodeRune r = take n s
      \<and> DecodeRune (take n s @ t) = (r, n)"
  using DecodeRune_inv [OF assms(1-3)]
proof (elim disjE exE conjE)
  assume "r = RuneError" "n = 1"
  then show ?thesis using assms(4) by simp
next
  fix c0 c1 u
  assume two: "s = c0 # c1 # u" "n = 2"
      "0xC2 \<le> (of_char c0 :: nat)" "(of_char c0 :: nat) \<le> 0xDF"
      "0x80 \<le> (of_char c1 :: nat)" "(of_char c1 :: nat) \<le> 0xBF"
      "r = (of_char c0 mod 32) * 64 + of_char c1 mod 64"
  note e = rune2_bytes [OF two(3-6), folded two(7)]
  have "EncodeRune r = [c0, c1]"
    unfolding EncodeRune2 [OF e(1,2)] e(3,4) by simp
  moreover have "DecodeRune (c0 # c1 # t) = (r, 2)"
    unfolding two(7) by (rule DecodeRune2 [OF two(3-6)])
  ultimately show ?thesis unfolding two(1,2) by simp
next
  fix c0 c1 c2 u
  assume three: "s = c0 # c1 # c2 # u" "n = 3"
      "0xE0 \<le> (of_char c0 :: nat)" "(of_char c0 :: nat) \<le> 0xEF"
      "0x80 \<le> (of_char c1 :: nat)" "(of_char c1 :: nat) \<le> 0xBF"
      "0x80 \<le> (of_char c2 :: nat)" "(of_char c2 :: nat) \<le> 0xBF"
      "(of_char c0 :: nat) = 0xE0 \<longrightarrow> 0xA0 \<le> (of_char c1 :: nat)"
      "(of_char c0 :: nat) = 0xED \<longrightarrow> (of_char c1 :: nat) \<le> 0x9F"
      "r = (of_char c0 mod 16) * 4096 + (of_char c1 mod 64) * 64 + of_char c2 mod 64"
  note e = rune3_bytes [OF three(3-10), folded three(11)]
  have "EncodeRune r = [c0, c1, c2]"
    unfolding EncodeRune3 [OF e(1,2,3)] e(4,5,6) by simp
  moreover have "DecodeRune (c0 # c1 # c2 # t) = (r, 3)"
    unfolding three(11) by (rule DecodeRune3 [OF three(3-10)])
  ultimately show ?thesis unfolding three(1,2) by simp
next
  fix c0 c1 c2 c3 u
  assume four: "s = c0 # c1 # c2 # c3 # u" "n = 4"
      "0xF0 \<le> (of_char c0 :: nat)" "(of_char c0 :: nat) \<le> 0xF4"
      "0x80 \<le> (of_char c1 :: nat)" "(of_char c1 :: nat) \<le> 0xBF"
      "0x80 \<le> (of_char c2 :: nat)" "(of_char c2 :: nat) \<le> 0xBF"
      "0x80 \<le> (of_char c3 :: nat)" "(of_char c3 :: nat) \<le> 0xBF"
      "(of_char c0 :: nat) = 0xF0 \<longrightarrow> 0x90 \<le> (of_char c1 :: nat)"
      "(of_char c0 :: nat) = 0xF4 \<longrightarrow> (of_char c1 :: nat) \<le> 0x8F"
      "r = (of_char c0 mod 8) * 262144 + (of_char c1 mod 64) * 4096
            + (of_char c2 mod 64) * 64 + of_char c3 mod 64"
  note e = rune4_bytes [OF four(3-12), folded four(13)]
  have "EncodeRune r = [c0, c1, c2, c3]"
    unfolding EncodeRune4 [OF e(1,2)] e(3,4,5,6) by simp
  moreover have "DecodeRune (c0 # c1 # c2 # c3 # t) = (r, 4)"
    unfolding four(13) by (rule DecodeRune4 [OF four(3-12)])
  ultimately show ?thesis unfolding four(1,2) by simp
qed

lemma DecodeRune_take4: "DecodeRune (take 4 s) = DecodeRune s"
proof (cases s)
  case Nil
  then show ?thesis by simp
next
  case s: (Cons c0 p)
  show ?thesis
  proof (cases p)
    case Nil
    then show ?thesis by (simp add: s)
  next
    case p: (Cons c1 p1)
    show ?thesis
    proof (cases p1)
      case Nil
      then show ?thesis by (simp add: s p)
    next
      case p1: (Cons c2 p2)
      show ?thesis
      proof (cases p2)
        case Nil
        then show ?thesis by (simp add: s p p1)
      next
        case p2: (Cons c3 p3)
        then show ?thesis by (simp add: s p p1 Let_def)
      qed
    qed
  qed
qed

section \<open>A string survives its quoting\<close>

text \<open>
  \<open>unquote\<close> undoes \<open>appendString\<close> on every string that is valid UTF-8: the
  escapes of the encoder are read back as the bytes they stand for, and the runes it copies
  are decoded and encoded again to the same bytes.
\<close>

lemma hexval_hex_all: "list_all (\<lambda>d. hexval (hex ! d) = Some d) [0..<16]"
  by code_simp

lemma hexval_hex: "d < 16 \<Longrightarrow> hexval (hex ! d) = Some d"
  using hexval_hex_all by (simp add: list_all_iff)

lemma hexval_0: "hexval (CHR ''0'') = Some 0"
  by (simp add: hexval_def)

lemma getu4_00:
  assumes "b < 128"
  shows "getu4 (CHR 0x5C # CHR ''u'' # CHR ''0'' # CHR ''0'' # hex ! (b div 16) # hex ! (b mod 16) # t)
    = Some b"
proof -
  have "b div 16 < 16" "b mod 16 < 16" using assms by simp_all
  then show ?thesis
    by (simp add: getu4_def hexval_hex hexval_0)
qed

lemma unquote_plain:
  assumes "0x20 \<le> (of_char c :: nat)" "(of_char c :: nat) < 0x80" "c \<noteq> CHR 0x22" "c \<noteq> CHR 0x5C"
  shows "unquote (c # t) = emit [c] (unquote t)"
  using assms by simp

lemma htmlSafeSet_plain:
  assumes "htmlSafeSet (of_char c)"
  shows "0x20 \<le> (of_char c :: nat)" "(of_char c :: nat) < 0x80" "c \<noteq> CHR 0x22" "c \<noteq> CHR 0x5C"
  using assms by (auto simp: htmlSafeSet_def)

lemma unquote_u00:
  assumes "b < 128"
  shows "unquote (CHR 0x5C # CHR ''u'' # CHR ''0'' # CHR ''0'' # hex ! (b div 16) # hex ! (b mod 16) # t)
    = emit [char_of b] (unquote t)"
  using assms by (simp add: getu4_00 EncodeRune_def)

lemma of_char_special:
  "(of_char c :: nat) = 0x5C \<Longrightarrow> c = CHR 0x5C"
  "(of_char c :: nat) = 0x22 \<Longrightarrow> c = CHR 0x22"
  "(of_char c :: nat) = 0x08 \<Longrightarrow> c = CHR 0x08"
  "(of_char c :: nat) = 0x0C \<Longrightarrow> c = CHR 0x0C"
  "(of_char c :: nat) = 0x0A \<Longrightarrow> c = CHR 0x0A"
  "(of_char c :: nat) = 0x0D \<Longrightarrow> c = CHR 0x0D"
  "(of_char c :: nat) = 0x09 \<Longrightarrow> c = CHR 0x09"
  by (rule of_char_eqI [where ?'a = nat], simp)+

lemma unquote_escapeByte:
  assumes "(of_char c :: nat) < 0x80"
  shows "unquote (escapeByte c @ t) = emit [c] (unquote t)"
proof -
  let ?b = "of_char c :: nat"
  consider "?b = 0x5C" | "?b = 0x22" | "?b = 0x08" | "?b = 0x0C" | "?b = 0x0A" | "?b = 0x0D"
    | "?b = 0x09"
    | "?b \<noteq> 0x5C" "?b \<noteq> 0x22" "?b \<noteq> 0x08" "?b \<noteq> 0x0C" "?b \<noteq> 0x0A" "?b \<noteq> 0x0D" "?b \<noteq> 0x09"
    by blast
  then show ?thesis
  proof cases
    case 1
    then show ?thesis using of_char_special(1) [OF 1] by (simp add: escapeByte_def unescape_def)
  next
    case 2
    then show ?thesis using of_char_special(2) [OF 2] by (simp add: escapeByte_def unescape_def)
  next
    case 3
    then show ?thesis using of_char_special(3) [OF 3] by (simp add: escapeByte_def unescape_def)
  next
    case 4
    then show ?thesis using of_char_special(4) [OF 4] by (simp add: escapeByte_def unescape_def)
  next
    case 5
    then show ?thesis using of_char_special(5) [OF 5] by (simp add: escapeByte_def unescape_def)
  next
    case 6
    then show ?thesis using of_char_special(6) [OF 6] by (simp add: escapeByte_def unescape_def)
  next
    case 7
    then show ?thesis using of_char_special(7) [OF 7] by (simp add: escapeByte_def unescape_def)
  next
    case 8
    have eb: "escapeByte c = [CHR 0x5C, CHR ''u'', CHR ''0'', CHR ''0'',
        hex ! (?b div 16), hex ! (?b mod 16)]"
      using 8 by (simp add: escapeByte_def Let_def)
    show ?thesis
      unfolding eb using unquote_u00 [OF assms, of t] by (simp del: unquote.simps)
  qed
qed

lemma unquote_multibyte:
  assumes "\<not> (of_char c :: nat) < 0x80" "DecodeRune (c # cs) = (r, n)"
    "\<not> (r = RuneError \<and> n = 1)"
  shows "unquote (take n (c # cs) @ t) = emit (take n (c # cs)) (unquote t)"
proof -
  have hd: "(of_char (hd (c # cs)) :: nat) \<ge> 0x80" using assms(1) by simp
  note v = DecodeRune_valid [OF assms(2) hd _ assms(3), simplified]
  from v [of t] have n: "2 \<le> n" "n \<le> Suc (length cs)"
    and enc: "EncodeRune r = take n (c # cs)"
    and dec: "DecodeRune (take n (c # cs) @ t) = (r, n)" by simp_all
  obtain m where m: "n = Suc m" using n(1) by (cases n) auto
  have tk: "take n (c # cs) = c # take m cs" by (simp add: m)
  have len: "length (take m cs) = m" using n(2) m by simp
  have c: "c \<noteq> CHR 0x22" "c \<noteq> CHR 0x5C" "\<not> (of_char c :: nat) < 0x20"
    using assms(1) by auto
  have "unquote (c # take m cs @ t)
      = emit (EncodeRune r) (unquote (drop (n - 1) (take m cs @ t)))"
    using c assms(1) dec [unfolded tk] by simp
  also have "drop (n - 1) (take m cs @ t) = t" using len m by simp
  finally show ?thesis by (simp add: enc tk)
qed

lemma unquote_u202:
  assumes "r = 0x2028 \<or> r = 0x2029"
  shows "unquote (CHR 0x5C # CHR ''u'' # CHR ''2'' # CHR ''0'' # CHR ''2'' # hex ! (r mod 16) # t)
    = emit (EncodeRune r) (unquote t)"
  using assms by (auto simp: getu4_def hexval_def hex_def)

lemma emit_Some: "emit b (Some (s, rest)) = Some (b @ s, rest)"
  by (simp add: emit_def)

lemma unquote_appendString_loop:
  "ValidString s \<Longrightarrow> unquote (appendString_loop s @ CHR 0x22 # rest) = Some (s, rest)"
proof (induction s rule: length_induct)
  case (1 s)
  show ?case
  proof (cases s)
    case Nil
    then show ?thesis by simp
  next
    case (Cons c cs)
    show ?thesis
    proof (cases "(of_char c :: nat) < 0x80")
      case True
      have "ValidString cs" using 1(2) True by (simp add: Cons)
      then have ih: "unquote (appendString_loop cs @ CHR 0x22 # rest) = Some (cs, rest)"
        using 1(1) Cons by simp
      show ?thesis
      proof (cases "htmlSafeSet (of_char c)")
        case safe: True
        show ?thesis
          using True safe unquote_plain [OF htmlSafeSet_plain [OF safe]] ih
          by (simp add: Cons emit_Some del: unquote.simps)
      next
        case unsafe: False
        show ?thesis
          using True unsafe unquote_escapeByte [OF True] ih
          by (simp add: Cons emit_Some del: unquote.simps)
      qed
    next
      case False
      obtain r n where d: "DecodeRune (c # cs) = (r, n)" by (cases "DecodeRune (c # cs)")
      have ok: "\<not> (r = RuneError \<and> n = 1)" and v: "ValidString (drop (n - 1) cs)"
        using 1(2) d by (simp_all add: Cons)
      have ih: "unquote (appendString_loop (drop (n - 1) cs) @ CHR 0x22 # rest)
          = Some (drop (n - 1) cs, rest)"
        using 1(1) v Cons by simp
      have hd: "(of_char (hd (c # cs)) :: nat) \<ge> 0x80" using False by simp
      have n: "2 \<le> n" using DecodeRune_valid [OF d hd _ ok, of "[]"] by simp
      have whole: "take n (c # cs) @ drop (n - 1) cs = c # cs"
        using n by (cases n) simp_all
      have dt: "DecodeRune (take 4 (c # cs)) = (r, n)"
        using DecodeRune_take4 [of "c # cs"] d by simp
      have enc: "EncodeRune r = take n (c # cs)"
        using DecodeRune_valid [OF d hd _ ok, of "[]"] by simp
      show ?thesis
      proof (cases "r = 0x2028 \<or> r = 0x2029")
        case True
        have "appendString_loop (c # cs)
            = [CHR 0x5C, CHR ''u'', CHR ''2'', CHR ''0'', CHR ''2'', hex ! (r mod 16)]
                @ appendString_loop (drop (n - 1) cs)"
          using False dt ok True by (simp del: DecodeRune.simps)
        then show ?thesis
          using unquote_u202 [OF True] ih whole
          by (simp add: Cons emit_Some enc del: unquote.simps DecodeRune.simps)
      next
        case other: False
        have "appendString_loop (c # cs)
            = take n (c # cs) @ appendString_loop (drop (n - 1) cs)"
          using False dt ok other by (simp del: DecodeRune.simps)
        then show ?thesis
          using unquote_multibyte [OF False d ok] ih whole
          by (simp add: Cons emit_Some del: unquote.simps DecodeRune.simps)
      qed
    qed
  qed
qed

section \<open>An asset survives Marshal and Unmarshal\<close>

lemma tokenize_appendString:
  assumes "ValidString s"
  shows "tokenize (appendString s @ rest) = tok (TString s) (tokenize rest)"
  using unquote_appendString_loop [OF assms, of rest]
  by (simp add: appendString_def isSpace_def del: unquote.simps)

lemma tokenize_Marshal:
  assumes "ValidString (CID v)" "ValidString (Features v)" "ValidString (ID v)"
    "ValidString (Type v)" "json_Marshal v = Inr b"
  shows "tokenize b = Some [TLBrace,
      TString ''cid'', TColon, TString (CID v), TComma,
      TString ''features'', TColon, TString (Features v), TComma,
      TString ''id'', TColon, TString (ID v), TComma,
      TString ''type'', TColon, TString (Type v), TRBrace]"
proof -
  have k1: \<open>tokenize (''{"cid":'' @ r) = tok TLBrace (tok (TString ''cid'') (tok TColon (tokenize r)))\<close> for r
    by (simp add: isSpace_def emit_def)
  have k2: \<open>tokenize ('',"features":'' @ r) = tok TComma (tok (TString ''features'') (tok TColon (tokenize r)))\<close> for r
    by (simp add: isSpace_def emit_def)
  have k3: \<open>tokenize ('',"id":'' @ r) = tok TComma (tok (TString ''id'') (tok TColon (tokenize r)))\<close> for r
    by (simp add: isSpace_def emit_def)
  have k4: \<open>tokenize ('',"type":'' @ r) = tok TComma (tok (TString ''type'') (tok TColon (tokenize r)))\<close> for r
    by (simp add: isSpace_def emit_def)
  have k5: \<open>tokenize ''}'' = Some [TRBrace]\<close>
    by (simp add: isSpace_def tok_def)
  have b: \<open>b = ''{"cid":'' @ (appendString (CID v)
          @ ('',"features":'' @ (appendString (Features v)
          @ ('',"id":'' @ (appendString (ID v)
          @ ('',"type":'' @ (appendString (Type v) @ ''}'')))))))\<close>
    using assms(5) by (simp add: json_Marshal_def)
  show ?thesis
    unfolding b k1 k2 k3 k4 k5 tokenize_appendString [OF assms(1)]
      tokenize_appendString [OF assms(2)] tokenize_appendString [OF assms(3)]
      tokenize_appendString [OF assms(4)]
    by (simp add: tok_def)
qed

lemma json_roundtrip:
  assumes "ValidString (CID v)" "ValidString (Features v)" "ValidString (ID v)"
    "ValidString (Type v)" "json_Marshal v = Inr b"
  shows "json_Unmarshal b = Inr v"
proof -
  have "scan BeginValue [] [TLBrace,
      TString ''cid'', TColon, TString (CID v), TComma,
      TString ''features'', TColon, TString (Features v), TComma,
      TString ''id'', TColon, TString (ID v), TComma,
      TString ''type'', TColon, TString (Type v), TRBrace]
    = Some (JObject [(''cid'', JString (CID v)), (''features'', JString (Features v)),
        (''id'', JString (ID v)), (''type'', JString (Type v))])"
    by (simp add: step_def beginValue_def beginString_def endValue_def maxNestingDepth_def)
  moreover have "object [(''cid'', JString (CID v)), (''features'', JString (Features v)),
        (''id'', JString (ID v)), (''type'', JString (Type v))]
        \<lparr>CID = [], Features = [], ID = [], Type = []\<rparr> False = (v, False)"
    by (simp add: findField_def)
  ultimately show ?thesis
    by (simp add: json_Unmarshal_def tokenize_Marshal [OF assms])
qed

section \<open>The store and the iterator loop\<close>

declare iterate.simps [simp del]

lemma iterate_empty:
  "pending it = [] \<Longrightarrow> iterate rc uc it acc = (Inr acc, it)"
  by (subst iterate.simps) (simp add: HasNext_def)

lemma iterate_decoded:
  "pending it = Inr kv # rest \<Longrightarrow> json_Unmarshal (Value kv) = Inr a \<Longrightarrow>
   iterate rc uc it acc = iterate rc uc (it\<lparr>pending := rest\<rparr>) (acc @ [a])"
  by (subst iterate.simps) (simp add: HasNext_def Next_def)

lemma iterate_undecoded:
  "pending it = Inr kv # rest \<Longrightarrow> json_Unmarshal (Value kv) = Inl e \<Longrightarrow>
   iterate rc uc it acc = (Inl (Wrap uc e), it\<lparr>pending := rest\<rparr>)"
  by (subst iterate.simps) (simp add: HasNext_def Next_def)

lemma iterate_all:
  "pending it = map Inr kvs \<Longrightarrow>
   map (\<lambda>kv. json_Unmarshal (Value kv)) kvs = map Inr assets \<Longrightarrow>
   iterate rc uc it acc = (Inr (acc @ assets), it\<lparr>pending := []\<rparr>)"
proof (induction kvs arbitrary: it acc assets)
  case Nil
  then show ?case by (simp add: iterate_empty)
next
  case (Cons kv kvs)
  from Cons.prems(2) obtain a as where as: "assets = a # as"
    "json_Unmarshal (Value kv) = Inr a"
    "map (\<lambda>kv. json_Unmarshal (Value kv)) kvs = map Inr as"
    by (cases assets) auto
  have p: "pending (it\<lparr>pending := map Inr kvs\<rparr>) = map Inr kvs" by simp
  have "iterate rc uc it acc = iterate rc uc (it\<lparr>pending := map Inr kvs\<rparr>) (acc @ [a])"
    using Cons.prems(1) as(2) by (simp add: iterate_decoded)
  also have "\<dots> = (Inr ((acc @ [a]) @ as), it\<lparr>pending := map Inr kvs, pending := []\<rparr>)"
    by (rule Cons.IH [OF p as(3)])
  finally show ?case by (simp add: as(1))
qed

lemma iterate_abort:
  "pending it = map Inr pre @ Inr kv # post \<Longrightarrow>
   \<forall>x \<in> set pre. \<exists>a. json_Unmarshal (Value x) = Inr a \<Longrightarrow>
   json_Unmarshal (Value kv) = Inl e \<Longrightarrow>
   iterate rc uc it acc = (Inl (Wrap uc e), it\<lparr>pending := post\<rparr>)"
proof (induction pre arbitrary: it acc)
  case Nil
  then show ?case by (simp add: iterate_undecoded)
next
  case (Cons x pre)
  from Cons.prems(2) obtain a where a: "json_Unmarshal (Value x) = Inr a" by auto
  let ?it = "it\<lparr>pending := map Inr pre @ Inr kv # post\<rparr>"
  have "iterate rc uc it acc = iterate rc uc ?it (acc @ [a])"
    using Cons.prems(1) a by (simp add: iterate_decoded)
  also have "\<dots> = (Inl (Wrap uc e), ?it\<lparr>pending := post\<rparr>)"
    using Cons.prems(2,3) by (intro Cons.IH) simp_all
  finally show ?case by simp
qed

section \<open>Existence check\<close>

text \<open>
  C7, as stated, at a value that is present and empty: the claim counts it as absent,
  \<^verbatim>\<open>AssetExists\<close> reports it as existing, since an empty slice is not \<^verbatim>\<open>nil\<close>.
\<close>

theorem AssetExists_empty_value_counterexample:
  "state (empty_stub\<lparr>state := (\<lambda>_. None)(''k'' \<mapsto> [])\<rparr>) ''k'' = Some []
   \<and> AssetExists (empty_stub\<lparr>state := (\<lambda>_. None)(''k'' \<mapsto> [])\<rparr>) ''k'' = Inr True"
  by (simp add: AssetExists_def GetState_def empty_stub_def)

text \<open>
  C7 (amended): for every key, \<^verbatim>\<open>AssetExists\<close> returns true if and only if the
  store returns a value other than \<^verbatim>\<open>nil\<close> for the key, empty or not; a key without
  a value gives false and no error; a failure of the read is returned as an error that
  wraps the store's.
\<close>

theorem AssetExists_iff_not_nil:
  "(get_error ctx key = None \<longrightarrow> AssetExists ctx key = Inr (state ctx key \<noteq> None))
   \<and> (state ctx key = None \<and> get_error ctx key = None \<longrightarrow> AssetExists ctx key = Inr False)
   \<and> (\<forall>err. get_error ctx key = Some err
         \<longrightarrow> AssetExists ctx key = Inl (Wrap ''read from ledger state'' err))"
  by (simp add: AssetExists_def GetState_def)

theorem AssetExists_iff_not_nil_witness:
  "AssetExists (empty_stub\<lparr>state := (\<lambda>_. None)(''CID_0'' \<mapsto> ''x'')\<rparr>) ''CID_0'' = Inr True
   \<and> AssetExists empty_stub ''CID_0'' = Inr False
   \<and> AssetExists (empty_stub\<lparr>get_error := (\<lambda>_. Some (StubError ''io''))\<rparr>) ''CID_0''
       = Inl (Wrap ''read from ledger state'' (StubError ''io''))"
  using AssetExists_iff_not_nil [of "empty_stub\<lparr>state := (\<lambda>_. None)(''CID_0'' \<mapsto> ''x'')\<rparr>" "''CID_0''"]
        AssetExists_iff_not_nil [of empty_stub "''CID_0''"]
        AssetExists_iff_not_nil [of "empty_stub\<lparr>get_error := (\<lambda>_. Some (StubError ''io''))\<rparr>" "''CID_0''"]
  by (simp add: empty_stub_def)

section \<open>Creating and reading back\<close>

lemma eval_Marshal_invalid_id:
  \<open>json_Marshal \<lparr>CID = ''CID_0'', Features = ''[]'', ID = [CHR 0xFF], Type = ''PDF''\<rparr>
    = Inr (''{"cid":"CID_0","features":"[]","id":"'' @ [CHR 0x5C] @ ''ufffd","type":"PDF"}'')\<close>
  by (simp add: json_Marshal_def appendString_def htmlSafeSet_def RuneError_def)

lemma eval_Unmarshal_replacement:
  \<open>json_Unmarshal
      (''{"cid":"CID_0","features":"[]","id":"'' @ [CHR 0x5C] @ ''ufffd","type":"PDF"}'')
    = Inr \<lparr>CID = ''CID_0'', Features = ''[]'', ID = [CHR 0xEF, CHR 0xBF, CHR 0xBD],
           Type = ''PDF''\<rparr>\<close>
  by (simp add: json_Unmarshal_def isSpace_def tok_def emit_def getu4_def hexval_def
      EncodeRune_def step_def beginValue_def beginString_def endValue_def maxNestingDepth_def
      findField_def char_of_eq_iff)

text \<open>
  C1, as stated, at an id that is one byte 0xFF (a Go string, and no valid UTF-8): the type
  tag is recognized and the key is absent, \<^verbatim>\<open>CreateAsset\<close> succeeds, and
  \<^verbatim>\<open>GetAsset\<close> returns an asset whose id is the three bytes of U+FFFD, not the id
  passed: \<^verbatim>\<open>json.Marshal\<close> replaces the byte.
\<close>

theorem CreateAsset_roundtrip_counterexample:
  "ParseAssetType ''PDF'' = Inr ''PDF''
   \<and> GetState empty_stub ''CID_0'' = Inr None
   \<and> fst (CreateAsset empty_stub ''CID_0'' [CHR 0xFF] ''PDF'' ''[]'') = None
   \<and> GetAsset (snd (CreateAsset empty_stub ''CID_0'' [CHR 0xFF] ''PDF'' ''[]'')) ''CID_0''
       = Inr \<lparr>CID = ''CID_0'', Features = ''[]'', ID = [CHR 0xEF, CHR 0xBF, CHR 0xBD],
              Type = ''PDF''\<rparr>
   \<and> GetAsset (snd (CreateAsset empty_stub ''CID_0'' [CHR 0xFF] ''PDF'' ''[]'')) ''CID_0''
       \<noteq> Inr \<lparr>CID = ''CID_0'', Features = ''[]'', ID = [CHR 0xFF], Type = ''PDF''\<rparr>"
  using eval_Marshal_invalid_id eval_Unmarshal_replacement
  by (simp add: CreateAsset_def AssetExists_def GetState_def PutState_def empty_stub_def
      ParseAssetType_def AssetTypePDF_def GetAsset_def)

text \<open>
  C1 (amended): for every cid, id and features that are valid UTF-8 and every recognized
  type tag, when no value is stored under cid and the store fails neither the read of
  cid nor a write to it, \<^verbatim>\<open>CreateAsset\<close> succeeds, and afterwards
  \<^verbatim>\<open>AssetExists(cid)\<close> returns true and \<^verbatim>\<open>GetAsset(cid)\<close> returns the asset with
  exactly the four values passed.
\<close>

theorem CreateAsset_roundtrip:
  assumes "assetType = ''PDF'' \<or> assetType = ''PE''"
    and "GetState ctx cid = Inr None"
    and "\<And>val. put_error ctx cid val = None"
    and "ValidString cid" and "ValidString assetID" and "ValidString features"
  shows "\<exists>ctx'. CreateAsset ctx cid assetID assetType features = (None, ctx')
    \<and> AssetExists ctx' cid = Inr True
    \<and> GetAsset ctx' cid
        = Inr \<lparr>CID = cid, Features = features, ID = assetID, Type = assetType\<rparr>"
proof -
  let ?v = "\<lparr>CID = cid, Features = features, ID = assetID, Type = assetType\<rparr>"
  obtain b where b: "json_Marshal ?v = Inr b" by (simp add: json_Marshal_def)
  have ty: "ValidString assetType" using assms(1) by (auto simp: RuneError_def)
  have ok: "json_Unmarshal b = Inr ?v"
    using json_roundtrip [OF _ _ _ _ b] assms(4-6) ty by simp
  have parse: "ParseAssetType assetType = Inr assetType"
    using assms(1) by (auto simp: ParseAssetType_def AssetTypePDF_def AssetTypePE_def)
  have ge: "get_error ctx cid = None" and st: "state ctx cid = None"
    using assms(2) by (auto simp: GetState_def split: option.splits)
  let ?ctx' = "ctx\<lparr>state := (state ctx)(cid \<mapsto> b), writes := writes ctx @ [(cid, b)]\<rparr>"
  have put: "PutState ctx cid b = Inr ?ctx'" by (simp add: PutState_def assms(3))
  have "CreateAsset ctx cid assetID assetType features = (None, ?ctx')"
    by (simp add: CreateAsset_def AssetExists_def assms(2) parse b put
        del: json_Marshal_def)
  moreover have "GetState ?ctx' cid = Inr (Some b)" by (simp add: GetState_def ge)
  then have "AssetExists ?ctx' cid = Inr True" "GetAsset ?ctx' cid = Inr ?v"
    by (simp_all add: AssetExists_def GetAsset_def ok)
  ultimately show ?thesis by blast
qed

theorem CreateAsset_roundtrip_witness:
  "\<exists>ctx'. CreateAsset empty_stub ''CID_0'' ''ASSET_0'' ''PDF'' ''[]'' = (None, ctx')
    \<and> AssetExists ctx' ''CID_0'' = Inr True
    \<and> GetAsset ctx' ''CID_0''
        = Inr \<lparr>CID = ''CID_0'', Features = ''[]'', ID = ''ASSET_0'', Type = ''PDF''\<rparr>"
  by (rule CreateAsset_roundtrip) (simp_all add: GetState_def empty_stub_def RuneError_def)

text \<open>
  C2: for every cid for which the store returns a value, \<^verbatim>\<open>CreateAsset\<close> with that
  cid and any id, type and features fails with \<^verbatim>\<open>ErrAssetExists\<close> and leaves the
  stub as it was: no write, the value under cid unchanged.
\<close>

theorem CreateAsset_existing:
  assumes "GetState ctx cid = Inr (Some val)"
  shows "CreateAsset ctx cid assetID assetType features = (Some ErrAssetExists, ctx)
    \<and> writes (snd (CreateAsset ctx cid assetID assetType features)) = writes ctx
    \<and> state (snd (CreateAsset ctx cid assetID assetType features)) cid = Some val"
  using assms
  by (auto simp: CreateAsset_def AssetExists_def GetState_def split: option.splits)

theorem CreateAsset_existing_witness:
  "CreateAsset (empty_stub\<lparr>state := (\<lambda>_. None)(''CID_0'' \<mapsto> ''old'')\<rparr>)
      ''CID_0'' ''ASSET_1'' ''PE'' ''[1]''
    = (Some ErrAssetExists, empty_stub\<lparr>state := (\<lambda>_. None)(''CID_0'' \<mapsto> ''old'')\<rparr>)
   \<and> writes (snd (CreateAsset (empty_stub\<lparr>state := (\<lambda>_. None)(''CID_0'' \<mapsto> ''old'')\<rparr>)
      ''CID_0'' ''ASSET_1'' ''PE'' ''[1]'')) = []
   \<and> state (snd (CreateAsset (empty_stub\<lparr>state := (\<lambda>_. None)(''CID_0'' \<mapsto> ''old'')\<rparr>)
      ''CID_0'' ''ASSET_1'' ''PE'' ''[1]'')) ''CID_0'' = Some ''old''"
  using CreateAsset_existing [of "empty_stub\<lparr>state := (\<lambda>_. None)(''CID_0'' \<mapsto> ''old'')\<rparr>"
      "''CID_0''" "''old''" "''ASSET_1''" "''PE''" "''[1]''"]
  by (simp add: GetState_def empty_stub_def)

text \<open>
  C3: for every type string other than the tags PDF and PE (compared case-sensitively),
  \<^verbatim>\<open>CreateAsset\<close> with an absent cid fails with the parser's error for that string,
  wrapped under "parse asset type", and leaves the stub as it was: no write, and
  \<^verbatim>\<open>AssetExists(cid)\<close> is still false afterwards.
\<close>

theorem CreateAsset_invalid_type:
  assumes "assetType \<noteq> ''PDF''" and "assetType \<noteq> ''PE''"
    and "GetState ctx cid = Inr None"
  shows "CreateAsset ctx cid assetID assetType features
      = (Some (Wrap ''parse asset type'' (ErrInvalidAssetType assetType)), ctx)
    \<and> writes (snd (CreateAsset ctx cid assetID assetType features)) = writes ctx
    \<and> AssetExists (snd (CreateAsset ctx cid assetID assetType features)) cid = Inr False"
  using assms
  by (simp add: CreateAsset_def AssetExists_def ParseAssetType_def)

theorem CreateAsset_invalid_type_witness:
  "CreateAsset empty_stub ''anycid'' ''ASSET_0'' ''EXE'' ''[]''
      = (Some (Wrap ''parse asset type'' (ErrInvalidAssetType ''EXE'')), empty_stub)
    \<and> writes (snd (CreateAsset empty_stub ''anycid'' ''ASSET_0'' ''EXE'' ''[]'')) = []
    \<and> AssetExists (snd (CreateAsset empty_stub ''anycid'' ''ASSET_0'' ''EXE'' ''[]'')) ''anycid''
        = Inr False
    \<and> fst (CreateAsset empty_stub ''anycid'' ''ASSET_0'' ''pdf'' ''[]'')
        = Some (Wrap ''parse asset type'' (ErrInvalidAssetType ''pdf''))"
  using CreateAsset_invalid_type [of "''EXE''" empty_stub "''anycid''" "''ASSET_0''" "''[]''"]
    CreateAsset_invalid_type [of "''pdf''" empty_stub "''anycid''" "''ASSET_0''" "''[]''"]
  by (simp add: GetState_def AssetExists_def empty_stub_def)

section \<open>Pagination\<close>

lemma eval_Unmarshal_asset0: "json_Unmarshal asset0_json = Inr asset0"
proof -
  have "json_Marshal asset0 = Inr asset0_json"
    by (simp add: json_Marshal_def appendString_def htmlSafeSet_def asset0_json_def asset0_def)
  then show ?thesis by (rule json_roundtrip [rotated 4]) (simp_all add: asset0_def RuneError_def)
qed

lemma eval_Unmarshal_brace: "json_Unmarshal ''{'' = Inl SyntaxError"
  by (simp add: json_Unmarshal_def isSpace_def tok_def step_def beginValue_def
      maxNestingDepth_def)

text \<open>
  C5: when the iterator that the store hands out has results that all decode before the
  n-th and an n-th value that does not decode, \<^verbatim>\<open>QueryAssets\<close> returns the
  decoding error, wrapped, and no page: the result is the error alone, the results after
  the n-th are not read, and the iterator has been closed once. The same holds of
  \<^verbatim>\<open>ReadAssets\<close> for the iterator of its range scan, on whatever store.
\<close>

theorem decode_failure_returns_no_page:
  assumes "pending it = map Inr pre @ Inr kv # post"
    and "\<forall>x \<in> set pre. \<exists>a. json_Unmarshal (Value x) = Inr a"
    and "json_Unmarshal (Value kv) = Inl e"
  shows "(query_result ctx queryString (int32 pageSize) bookmark = Inr (it, md)
      \<longrightarrow> QueryAssets ctx queryString pageSize bookmark
          = (Inl (Wrap ''unmarshal asset'' e),
             Some (it\<lparr>pending := post, closed := closed it + 1\<rparr>)))
    \<and> (range_result ctx' [] [] pageSize32 bookmark' = Inr (it, md')
      \<longrightarrow> ReadAssets ctx' pageSize32 bookmark'
          = (Inl (Wrap ''failed to unmarshal asset'' e),
             Some (it\<lparr>pending := post, closed := closed it + 1\<rparr>)))"
proof (intro conjI impI)
  assume "query_result ctx queryString (int32 pageSize) bookmark = Inr (it, md)"
  then show "QueryAssets ctx queryString pageSize bookmark
      = (Inl (Wrap ''unmarshal asset'' e), Some (it\<lparr>pending := post, closed := closed it + 1\<rparr>))"
    using iterate_abort [OF assms]
    by (simp add: QueryAssets_def getQueryResultForQueryStringWithPagination_def
        GetQueryResultWithPagination_def constructQueryResponseFromIterator_def Close_def)
next
  assume "range_result ctx' [] [] pageSize32 bookmark' = Inr (it, md')"
  then show "ReadAssets ctx' pageSize32 bookmark'
      = (Inl (Wrap ''failed to unmarshal asset'' e),
         Some (it\<lparr>pending := post, closed := closed it + 1\<rparr>))"
    using iterate_abort [OF assms]
    by (simp add: ReadAssets_def GetStateByRangeWithPagination_def Close_def)
qed

theorem decode_failure_returns_no_page_witness:
  "QueryAssets (page_stub [Inr kv_good, Inr kv_bad, Inr kv_good]) ''{}'' 3 []
      = (Inl (Wrap ''unmarshal asset'' SyntaxError),
         Some \<lparr>pending = [Inr kv_good], closed = 1\<rparr>)
    \<and> ReadAssets (range_stub [Inr kv_good, Inr kv_bad, Inr kv_good]) 2 ''CID_0''
      = (Inl (Wrap ''failed to unmarshal asset'' SyntaxError),
         Some \<lparr>pending = [Inr kv_good], closed = 1\<rparr>)
    \<and> query_result (range_stub [Inr kv_good, Inr kv_bad, Inr kv_good]) ''{}'' 2 ''CID_0''
      = Inl (StubError ''no query'')"
proof -
  let ?it = "\<lparr>pending = [Inr kv_good, Inr kv_bad, Inr kv_good], closed = 0\<rparr>"
  have q: "query_result (page_stub [Inr kv_good, Inr kv_bad, Inr kv_good]) ''{}'' (int32 3) []
      = Inr (?it, \<lparr>GetFetchedRecordsCount = 3, GetBookmark = ''g1AAAA''\<rparr>)"
    by (simp add: page_stub_def)
  have r: "range_result (range_stub [Inr kv_good, Inr kv_bad, Inr kv_good]) [] [] 2 ''CID_0''
      = Inr (?it, \<lparr>GetFetchedRecordsCount = 3, GetBookmark = ''CID_2''\<rparr>)"
    by (simp add: range_stub_def)
  have n: "query_result (range_stub [Inr kv_good, Inr kv_bad, Inr kv_good]) ''{}'' 2 ''CID_0''
      = Inl (StubError ''no query'')"
    by (simp add: range_stub_def empty_stub_def)
  have p: "pending ?it = map Inr [kv_good] @ Inr kv_bad # [Inr kv_good]" by simp
  have g: "\<forall>x \<in> set [kv_good]. \<exists>a. json_Unmarshal (Value x) = Inr a"
    by (simp add: kv_good_def eval_Unmarshal_asset0)
  have b: "json_Unmarshal (Value kv_bad) = Inl SyntaxError"
    by (simp add: kv_bad_def eval_Unmarshal_brace)
  note t = decode_failure_returns_no_page [OF p g b]
  have 1: "QueryAssets (page_stub [Inr kv_good, Inr kv_bad, Inr kv_good]) ''{}'' 3 []
      = (Inl (Wrap ''unmarshal asset'' SyntaxError),
         Some \<lparr>pending = [Inr kv_good], closed = 1\<rparr>)"
    using t [THEN conjunct1, rule_format, OF q] by simp
  have 2: "ReadAssets (range_stub [Inr kv_good, Inr kv_bad, Inr kv_good]) 2 ''CID_0''
      = (Inl (Wrap ''failed to unmarshal asset'' SyntaxError),
         Some \<lparr>pending = [Inr kv_good], closed = 1\<rparr>)"
    using t [THEN conjunct2, rule_format, OF r] by simp
  from 1 2 n show ?thesis by blast
qed

text \<open>
  C6: when the store hands out an iterator whose values all decode, the paginated query
  returns the decoded assets, all of them and in the order of the iterator, whatever the
  page size asked for, with the fetched-count and the bookmark of the store's metadata
  as they are; the iterator is read to its end and closed once.
\<close>

theorem paginated_query_returns_all:
  assumes "query_result ctx queryString pageSize bookmark = Inr (it, md)"
    and "pending it = map Inr kvs"
    and "map (\<lambda>kv. json_Unmarshal (Value kv)) kvs = map Inr assets"
  shows "getQueryResultForQueryStringWithPagination ctx queryString pageSize bookmark
      = (Inr \<lparr>Records = assets, FetchedRecordsCount = GetFetchedRecordsCount md,
               Bookmark = GetBookmark md\<rparr>,
         Some (it\<lparr>pending := [], closed := closed it + 1\<rparr>))
    \<and> length assets = length kvs"
proof -
  have "length (map (\<lambda>kv. json_Unmarshal (Value kv)) kvs) = length (map Inr assets :: (error + Asset) list)"
    using assms(3) by simp
  then have "length assets = length kvs" by simp
  then show ?thesis
    using assms(1) iterate_all [OF assms(2,3)]
    by (simp add: getQueryResultForQueryStringWithPagination_def
        GetQueryResultWithPagination_def constructQueryResponseFromIterator_def Close_def)
qed

theorem paginated_query_returns_all_witness:
  "getQueryResultForQueryStringWithPagination (page_stub [Inr kv_good, Inr kv_good, Inr kv_good])
      ''{}'' 2 []
      = (Inr \<lparr>Records = [asset0, asset0, asset0], FetchedRecordsCount = 3,
               Bookmark = ''g1AAAA''\<rparr>,
         Some \<lparr>pending = [], closed = 1\<rparr>)
    \<and> length [asset0, asset0, asset0] = length [kv_good, kv_good, kv_good]"
proof -
  let ?ctx = "page_stub [Inr kv_good, Inr kv_good, Inr kv_good]"
  let ?it = "\<lparr>pending = [Inr kv_good, Inr kv_good, Inr kv_good], closed = 0\<rparr>"
  let ?md = "\<lparr>GetFetchedRecordsCount = 3, GetBookmark = ''g1AAAA''\<rparr>"
  have q: "query_result ?ctx ''{}'' 2 [] = Inr (?it, ?md)"
    by (simp add: page_stub_def)
  have p: "pending ?it = map Inr [kv_good, kv_good, kv_good]" by simp
  have d: "map (\<lambda>kv. json_Unmarshal (Value kv)) [kv_good, kv_good, kv_good]
      = map Inr [asset0, asset0, asset0]"
    by (simp add: kv_good_def eval_Unmarshal_asset0)
  show ?thesis
    using paginated_query_returns_all [OF q p d] by simp
qed

section \<open>Point read\<close>

text \<open>
  C8: for every cid for which the store returns no value, \<^verbatim>\<open>GetAsset\<close> (and
  \<^verbatim>\<open>ReadAsset\<close>) fails with \<^verbatim>\<open>ErrNotFound\<close>; for every cid whose stored bytes
  decode as an asset it returns that asset; and it returns an asset only for a key that has
  a value.
\<close>

theorem GetAsset_absent_or_decoded:
  "(GetState ctx cid = Inr None
      \<longrightarrow> GetAsset ctx cid = Inl ErrNotFound \<and> ReadAsset ctx cid = Inl ErrNotFound)
   \<and> (\<forall>assetJSON asset.
        GetState ctx cid = Inr (Some assetJSON) \<and> json_Unmarshal assetJSON = Inr asset
        \<longrightarrow> GetAsset ctx cid = Inr asset \<and> ReadAsset ctx cid = Inr asset)
   \<and> (\<forall>asset. GetAsset ctx cid = Inr asset \<or> ReadAsset ctx cid = Inr asset
        \<longrightarrow> state ctx cid \<noteq> None)"
  by (auto simp: GetAsset_def ReadAsset_def GetState_def split: option.splits sum.splits)

theorem GetAsset_absent_or_decoded_witness:
  "GetAsset empty_stub ''CID_0'' = Inl ErrNotFound
   \<and> ReadAsset empty_stub ''CID_0'' = Inl ErrNotFound
   \<and> GetAsset (empty_stub\<lparr>state := (\<lambda>_. None)(''CID_0'' \<mapsto> asset0_json)\<rparr>) ''CID_0'' = Inr asset0
   \<and> ReadAsset (empty_stub\<lparr>state := (\<lambda>_. None)(''CID_0'' \<mapsto> asset0_json)\<rparr>) ''CID_0'' = Inr asset0
   \<and> state (empty_stub\<lparr>state := (\<lambda>_. None)(''CID_0'' \<mapsto> asset0_json)\<rparr>) ''CID_0'' \<noteq> None"
  using GetAsset_absent_or_decoded [of empty_stub "''CID_0''"]
    GetAsset_absent_or_decoded
      [of "empty_stub\<lparr>state := (\<lambda>_. None)(''CID_0'' \<mapsto> asset0_json)\<rparr>" "''CID_0''"]
    eval_Unmarshal_asset0
  by (simp add: GetState_def empty_stub_def)

section \<open>Persisted layout\<close>

text \<open>
  C9: on every successful \<^verbatim>\<open>CreateAsset\<close> the store is written once; the key is
  the cid, no other key changes; the value is what \<^verbatim>\<open>json.Marshal\<close> gives for the
  asset, an object with the members cid, features, id, type in this order; and the same
  four arguments give the same bytes whatever the store held.
\<close>

theorem CreateAsset_writes_one_key:
  assumes "CreateAsset ctx cid assetID assetType features = (None, ctx')"
  shows \<open>\<exists>val. writes ctx' = writes ctx @ [(cid, val)]
    \<and> state ctx' = (state ctx)(cid \<mapsto> val)
    \<and> (\<forall>key. key \<noteq> cid \<longrightarrow> state ctx' key = state ctx key)
    \<and> json_Marshal \<lparr>CID = cid, Features = features, ID = assetID, Type = assetType\<rparr> = Inr val
    \<and> val = ''{"cid":'' @ appendString cid @ '',"features":'' @ appendString features
          @ '',"id":'' @ appendString assetID @ '',"type":'' @ appendString assetType @ ''}''
    \<and> (\<forall>ctx2 ctx2'. CreateAsset ctx2 cid assetID assetType features = (None, ctx2')
          \<longrightarrow> state ctx2' cid = Some val)\<close>
proof -
  have parse: "ParseAssetType assetType = Inr assetType"
    using assms
    by (auto simp: CreateAsset_def ParseAssetType_def AssetTypePDF_def AssetTypePE_def
        split: sum.splits if_splits)
  let ?val = \<open>''{"cid":'' @ appendString cid @ '',"features":'' @ appendString features
          @ '',"id":'' @ appendString assetID @ '',"type":'' @ appendString assetType @ ''}''\<close>
  have m: "json_Marshal \<lparr>CID = cid, Features = features, ID = assetID, Type = assetType\<rparr>
      = Inr ?val"
    by (simp add: json_Marshal_def)
  have put: "PutState c cid ?val = Inr c'"
    if "CreateAsset c cid assetID assetType features = (None, c')" for c c'
    using that parse m
    by (auto simp: CreateAsset_def split: sum.splits if_splits)
  have "PutState ctx cid ?val = Inr ctx'" by (rule put [OF assms])
  then have 1: "writes ctx' = writes ctx @ [(cid, ?val)]"
    and 2: "state ctx' = (state ctx)(cid \<mapsto> ?val)"
    by (auto simp: PutState_def split: option.splits)
  have 3: "state c' cid = Some ?val"
    if "CreateAsset c cid assetID assetType features = (None, c')" for c c'
    using put [OF that] by (auto simp: PutState_def split: option.splits)
  show ?thesis using 1 2 3 m by auto
qed

theorem CreateAsset_writes_one_key_witness:
  "\<exists>val. writes (snd (CreateAsset empty_stub ''CID_0'' ''ASSET_0'' ''PDF'' ''[]''))
      = [(''CID_0'', val)]
    \<and> state (snd (CreateAsset empty_stub ''CID_0'' ''ASSET_0'' ''PDF'' ''[]''))
      = (\<lambda>_. None)(''CID_0'' \<mapsto> val)
    \<and> val = asset0_json"
proof -
  have c: "CreateAsset empty_stub ''CID_0'' ''ASSET_0'' ''PDF'' ''[]''
      = (None, snd (CreateAsset empty_stub ''CID_0'' ''ASSET_0'' ''PDF'' ''[]''))"
    by (simp add: CreateAsset_def AssetExists_def GetState_def PutState_def empty_stub_def
        ParseAssetType_def json_Marshal_def)
  show ?thesis
    using CreateAsset_writes_one_key [OF c]
    by (auto simp: empty_stub_def asset0_json_def appendString_def htmlSafeSet_def)
qed

section \<open>Page size\<close>

text \<open>
  C10: \<^verbatim>\<open>QueryAssets\<close> asks the store with \<^verbatim>\<open>int32(pageSize)\<close>: what it
  returns is the store's refusal at that page size, wrapped, or the page built from the
  iterator and the metadata that the store gives at that page size, and nothing else of
  the store. As a signed number the page size passed is the one supplied reduced modulo
  2^32 into the range of int32: equal to it when it lies between -2^31 and 2^31 - 1, zero
  and the negative values included, and different from it otherwise.
\<close>

theorem QueryAssets_narrows_pageSize:
  "QueryAssets ctx queryString pageSize bookmark
      = getQueryResultForQueryStringWithPagination ctx queryString (int32 pageSize) bookmark
   \<and> (\<forall>err. query_result ctx queryString (int32 pageSize) bookmark = Inl err
        \<longrightarrow> QueryAssets ctx queryString pageSize bookmark
          = (Inl (Wrap ''get query result'' err), None))
   \<and> (\<forall>it md. query_result ctx queryString (int32 pageSize) bookmark = Inr (it, md)
        \<longrightarrow> QueryAssets ctx queryString pageSize bookmark
          = (case constructQueryResponseFromIterator it of
               (Inl err, it') \<Rightarrow> (Inl err, Some (Close it'))
             | (Inr assets, it') \<Rightarrow>
                 (Inr \<lparr>Records = assets, FetchedRecordsCount = GetFetchedRecordsCount md,
                       Bookmark = GetBookmark md\<rparr>,
                  Some (Close it'))))
   \<and> (\<forall>ctx2. query_result ctx2 queryString (int32 pageSize) bookmark
          = query_result ctx queryString (int32 pageSize) bookmark
        \<longrightarrow> QueryAssets ctx2 queryString pageSize bookmark
          = QueryAssets ctx queryString pageSize bookmark)
   \<and> sint (int32 pageSize) = (sint pageSize + 2 ^ 31) mod 2 ^ 32 - 2 ^ 31
   \<and> (- (2 ^ 31) \<le> sint pageSize \<and> sint pageSize < 2 ^ 31
        \<longrightarrow> sint (int32 pageSize) = sint pageSize)
   \<and> (sint pageSize < - (2 ^ 31) \<or> 2 ^ 31 \<le> sint pageSize
        \<longrightarrow> sint (int32 pageSize) \<noteq> sint pageSize)"
proof -
  have s: "sint (int32 pageSize) = signed_take_bit 31 (sint pageSize)"
    by (simp add: int32_def sint_uint unsigned_ucast_eq signed_take_bit_take_bit
        signed_take_bit_signed_take_bit)
  have f: "signed_take_bit 31 (sint pageSize) = (sint pageSize + 2 ^ 31) mod 2 ^ 32 - 2 ^ 31"
    by (simp add: signed_take_bit_eq_take_bit_shift take_bit_eq_mod)
  have i: "signed_take_bit 31 (sint pageSize) = sint pageSize
      \<longleftrightarrow> - (2 ^ 31) \<le> sint pageSize \<and> sint pageSize < 2 ^ 31"
    by (rule signed_take_bit_int_eq_self_iff)
  have 1: "QueryAssets ctx queryString pageSize bookmark
      = getQueryResultForQueryStringWithPagination ctx queryString (int32 pageSize) bookmark"
    by (simp add: QueryAssets_def)
  have a: "\<forall>err. query_result ctx queryString (int32 pageSize) bookmark = Inl err
        \<longrightarrow> QueryAssets ctx queryString pageSize bookmark
          = (Inl (Wrap ''get query result'' err), None)"
    by (simp add: QueryAssets_def getQueryResultForQueryStringWithPagination_def
        GetQueryResultWithPagination_def)
  have b: "\<forall>it md. query_result ctx queryString (int32 pageSize) bookmark = Inr (it, md)
        \<longrightarrow> QueryAssets ctx queryString pageSize bookmark
          = (case constructQueryResponseFromIterator it of
               (Inl err, it') \<Rightarrow> (Inl err, Some (Close it'))
             | (Inr assets, it') \<Rightarrow>
                 (Inr \<lparr>Records = assets, FetchedRecordsCount = GetFetchedRecordsCount md,
                       Bookmark = GetBookmark md\<rparr>,
                  Some (Close it')))"
    by (simp add: QueryAssets_def getQueryResultForQueryStringWithPagination_def
        GetQueryResultWithPagination_def)
  have 2: "\<forall>ctx2. query_result ctx2 queryString (int32 pageSize) bookmark
          = query_result ctx queryString (int32 pageSize) bookmark
        \<longrightarrow> QueryAssets ctx2 queryString pageSize bookmark
          = QueryAssets ctx queryString pageSize bookmark"
    by (simp add: QueryAssets_def getQueryResultForQueryStringWithPagination_def
        GetQueryResultWithPagination_def)
  have 3: "sint (int32 pageSize) = (sint pageSize + 2 ^ 31) mod 2 ^ 32 - 2 ^ 31"
    unfolding s by (rule f)
  have 4: "- (2 ^ 31) \<le> sint pageSize \<and> sint pageSize < 2 ^ 31
        \<longrightarrow> sint (int32 pageSize) = sint pageSize"
    unfolding s i by simp
  have 5: "sint pageSize < - (2 ^ 31) \<or> 2 ^ 31 \<le> sint pageSize
        \<longrightarrow> sint (int32 pageSize) \<noteq> sint pageSize"
    unfolding s i by auto
  from 1 a b 2 3 4 5 show ?thesis by blast
qed

theorem QueryAssets_narrows_pageSize_witness:
  "QueryAssets echo_stub ''{}'' 4294967301 ''bm''
      = (Inr \<lparr>Records = [], FetchedRecordsCount = 5, Bookmark = ''bm''\<rparr>,
         Some \<lparr>pending = [], closed = 1\<rparr>)
   \<and> QueryAssets echo_stub ''{}'' 2147483648 ''bm''
      = (Inr \<lparr>Records = [], FetchedRecordsCount = - 2147483648, Bookmark = ''bm''\<rparr>,
         Some \<lparr>pending = [], closed = 1\<rparr>)
   \<and> QueryAssets echo_stub ''{}'' 7 ''bm''
      = (Inr \<lparr>Records = [], FetchedRecordsCount = 7, Bookmark = ''bm''\<rparr>,
         Some \<lparr>pending = [], closed = 1\<rparr>)
   \<and> QueryAssets empty_stub ''{}'' 7 ''bm''
      = (Inl (Wrap ''get query result'' (StubError ''no query'')), None)
   \<and> sint (int32 4294967301) = 5
   \<and> sint (int32 2147483648) = - 2147483648
   \<and> sint (int32 (- 1)) = - 1
   \<and> sint (int32 0) = 0"
proof -
  have sa: "sint (int32 4294967301) = 5"
    using QueryAssets_narrows_pageSize [of echo_stub "''{}''" 4294967301 "''bm''"] by simp
  have sb: "sint (int32 2147483648) = - 2147483648"
    using QueryAssets_narrows_pageSize [of echo_stub "''{}''" 2147483648 "''bm''"] by simp
  have sc: "sint (int32 (- 1)) = - 1"
    using QueryAssets_narrows_pageSize [of echo_stub "''{}''" "- 1" "''bm''"] by simp
  have sd: "sint (int32 0) = 0"
    using QueryAssets_narrows_pageSize [of echo_stub "''{}''" 0 "''bm''"] by simp
  have "sint (int32 4294967301) = sint (5 :: 32 word)" using sa by simp
  then have wa: "int32 4294967301 = 5" by (rule signed_word_eqI)
  have "sint (int32 2147483648) = sint (- 2147483648 :: 32 word)" using sb by simp
  then have wb: "int32 2147483648 = - 2147483648" by (rule signed_word_eqI)
  have wc: "int32 7 = 7" by (simp add: int32_def)
  have echo: "query_result echo_stub ''{}'' (int32 p) ''bm''
      = Inr (\<lparr>pending = [], closed = 0\<rparr>,
             \<lparr>GetFetchedRecordsCount = int32 p, GetBookmark = ''bm''\<rparr>)" for p
    by (simp add: echo_stub_def)
  have page: "QueryAssets echo_stub ''{}'' p ''bm''
      = (Inr \<lparr>Records = [], FetchedRecordsCount = int32 p, Bookmark = ''bm''\<rparr>,
         Some \<lparr>pending = [], closed = 1\<rparr>)" for p
    using QueryAssets_narrows_pageSize [of echo_stub "''{}''" p "''bm''",
        THEN conjunct2, THEN conjunct2, THEN conjunct1, rule_format, OF echo [of p]]
    by (simp add: constructQueryResponseFromIterator_def iterate_empty Close_def)
  have no: "query_result empty_stub ''{}'' (int32 7) ''bm'' = Inl (StubError ''no query'')"
    by (simp add: empty_stub_def)
  have refused: "QueryAssets empty_stub ''{}'' 7 ''bm''
      = (Inl (Wrap ''get query result'' (StubError ''no query'')), None)"
    by (rule QueryAssets_narrows_pageSize [of empty_stub "''{}''" 7 "''bm''",
        THEN conjunct2, THEN conjunct1, rule_format, OF no])
  have p1: "QueryAssets echo_stub ''{}'' 4294967301 ''bm''
      = (Inr \<lparr>Records = [], FetchedRecordsCount = 5, Bookmark = ''bm''\<rparr>,
         Some \<lparr>pending = [], closed = 1\<rparr>)"
    using page [of 4294967301] by (simp only: wa)
  have p2: "QueryAssets echo_stub ''{}'' 2147483648 ''bm''
      = (Inr \<lparr>Records = [], FetchedRecordsCount = - 2147483648, Bookmark = ''bm''\<rparr>,
         Some \<lparr>pending = [], closed = 1\<rparr>)"
    using page [of 2147483648] by (simp only: wb)
  have p3: "QueryAssets echo_stub ''{}'' 7 ''bm''
      = (Inr \<lparr>Records = [], FetchedRecordsCount = 7, Bookmark = ''bm''\<rparr>,
         Some \<lparr>pending = [], closed = 1\<rparr>)"
    using page [of 7] by (simp only: wc)
  from p1 p2 p3 refused sa sb sc sd show ?thesis by blast
qed

end
